theory Spec2Isabelle
  imports Complex_Main "HOL-Library.Sublist" "HOL-Library.Char_ord" "HOL-Library.List_Lexorder"
begin

section \<open>Strings and paths\<close>

text \<open>
  The notebooks build every file name with a handful of Python library calls
  (\<^verbatim>\<open>os.path.basename\<close>, \<^verbatim>\<open>os.path.splitext\<close>, \<^verbatim>\<open>os.path.join\<close>, \<^verbatim>\<open>str.replace\<close>,
  \<^verbatim>\<open>str.lower\<close>, \<^verbatim>\<open>str.endswith\<close> and the format \<^verbatim>\<open>{:03d}\<close>).  They are modelled on
  \<open>string\<close> with the POSIX flavour of \<^verbatim>\<open>os.path\<close>: the separator is \<open>/\<close>.
\<close>

definition sep :: char where
  "sep = CHR ''/''"

definition extsep :: char where
  "extsep = CHR ''.''"

text \<open>\<^verbatim>\<open>p[p.rfind('/') + 1:]\<close>: everything after the last separator.\<close>

definition basename :: "string \<Rightarrow> string" where
  "basename p = rev (takeWhile (\<lambda>c. c \<noteq> sep) (rev p))"

text \<open>\<^verbatim>\<open>str.rfind\<close> for a single character: the last index, or \<open>-1\<close>.\<close>

fun rfind :: "string \<Rightarrow> char \<Rightarrow> int" where
  "rfind [] c = -1"
| "rfind (x # xs) c =
     (let r = rfind xs c in
      if r \<noteq> -1 then r + 1 else if x = c then 0 else -1)"

text \<open>
  \<^verbatim>\<open>os.path.splitext\<close>: split at the last dot of the last path component, unless
  that component has only leading dots before it.
\<close>

definition splitext :: "string \<Rightarrow> string \<times> string" where
  "splitext p =
     (let sepIndex = rfind p sep;
          dotIndex = rfind p extsep
      in if dotIndex > sepIndex \<and>
            list_ex (\<lambda>c. c \<noteq> extsep)
              (take (nat (dotIndex - (sepIndex + 1))) (drop (nat (sepIndex + 1)) p))
         then (take (nat dotIndex) p, drop (nat dotIndex) p)
         else (p, []))"

text \<open>\<^verbatim>\<open>os.path.join(a, b)\<close> for two components.\<close>

definition path_join :: "string \<Rightarrow> string \<Rightarrow> string" where
  "path_join a b =
     (if b \<noteq> [] \<and> hd b = sep then b
      else if a = [] \<or> last a = sep then a @ b
      else a @ [sep] @ b)"

text \<open>Decimal digits of a natural number, and the format \<^verbatim>\<open>{n:03d}\<close>.\<close>

fun dec :: "nat \<Rightarrow> string" where
  "dec n = (if n < 10 then [char_of (48 + n)] else dec (n div 10) @ [char_of (48 + n mod 10)])"

declare dec.simps [simp del]

definition fmt03d :: "nat \<Rightarrow> string" where
  "fmt03d n = (let s = dec n in replicate (3 - length s) (CHR ''0'') @ s)"

text \<open>
  \<^verbatim>\<open>s.replace(old, new)\<close>: every non-overlapping occurrence of \<open>old\<close>, scanning from
  the left, is replaced.  For an empty \<open>old\<close> Python puts \<open>new\<close> before every
  character and at the end.
\<close>

function py_replace :: "string \<Rightarrow> string \<Rightarrow> string \<Rightarrow> string" where
  "py_replace old new s =
     (if old = [] then new @ concat (map (\<lambda>c. c # new) s)
      else if s = [] then []
      else if prefix old s then new @ py_replace old new (drop (length old) s)
      else hd s # py_replace old new (tl s))"
  by pat_completeness auto
termination
  by (relation "measure (\<lambda>(old, new, s). length s)") auto

declare py_replace.simps [simp del]

text \<open>\<^verbatim>\<open>str.lower\<close> on ASCII letters, and \<^verbatim>\<open>str.endswith\<close>.\<close>

definition lower_char :: "char \<Rightarrow> char" where
  "lower_char c =
     (if CHR ''A'' \<le> c \<and> c \<le> CHR ''Z'' then char_of (of_char c + (32::nat)) else c)"

definition lower :: "string \<Rightarrow> string" where
  "lower s = map lower_char s"

definition endswith :: "string \<Rightarrow> string \<Rightarrow> bool" where
  "endswith s suf = suffix suf s"

section \<open>Python floats\<close>

text \<open>
  A Python float is an IEEE 754 double: 53 bits of mantissa, exponents of the
  last mantissa bit from \<open>-1074\<close> up, and magnitudes below \<open>2 ^ 1024\<close>.  A finite
  double is given by the rational it denotes, and a rational that is not a double
  stands for the double nearest to it (\<^verbatim>\<open>0.29\<close> for \<open>29/100\<close>).  Arithmetic on
  doubles computes the exact result and rounds it to the nearest double, to the
  even mantissa at a tie.
\<close>

definition pow2 :: "int \<Rightarrow> rat" where
  "pow2 k = (if 0 \<le> k then of_int (2 ^ nat k) else 1 / of_int (2 ^ nat (- k)))"

text \<open>The number of binary digits of a positive integer (\<^verbatim>\<open>int.bit_length\<close>).\<close>

function bit_length :: "int \<Rightarrow> int" where
  "bit_length n = (if n \<le> 0 then 0 else bit_length (n div 2) + 1)"
  by pat_completeness auto
termination
  by (relation "measure nat") auto

declare bit_length.simps [simp del]

text \<open>
  The binary exponent of a rational other than zero, the \<open>e\<close> with
  \<open>2 ^ e \<le> \<bar>x\<bar> < 2 ^ (e + 1)\<close>: for \<open>\<bar>x\<bar> = p / q\<close> it is the difference of the bit lengths
  of \<open>p\<close> and \<open>q\<close>, or one less.
\<close>

definition exponent_of :: "int \<Rightarrow> int \<Rightarrow> int" where
  "exponent_of p q =
     (if pow2 (bit_length p - bit_length q) * of_int q \<le> of_int p
      then bit_length p - bit_length q
      else bit_length p - bit_length q - 1)"

definition float_exponent :: "rat \<Rightarrow> int" where
  "float_exponent x = exponent_of (fst (quotient_of \<bar>x\<bar>)) (snd (quotient_of \<bar>x\<bar>))"

text \<open>Rounding to the nearest integer, to the even one at a tie.\<close>

definition round_from :: "rat \<Rightarrow> int \<Rightarrow> int" where
  "round_from y f =
     (if y - of_int f < 1 / 2 then f
      else if 1 / 2 < y - of_int f then f + 1
      else if even f then f
      else f + 1)"

definition round_half_even :: "rat \<Rightarrow> int" where
  "round_half_even y = round_from y \<lfloor>y\<rfloor>"

text \<open>
  Rounding a rational to double precision, the exponent range unbounded above:
  the mantissa is rounded at the bit \<open>52\<close> places below the leading one, or at the
  bit \<open>-1074\<close> for a subnormal result.
\<close>

definition round_at :: "rat \<Rightarrow> rat \<Rightarrow> rat" where
  "round_at x ulp = sgn x * of_int (round_half_even (\<bar>x\<bar> / ulp)) * ulp"

definition float_round :: "rat \<Rightarrow> rat" where
  "float_round x =
     (if x = 0 then 0 else round_at x (pow2 (max (float_exponent x - 52) (- 1074))))"

text \<open>
  A rounded magnitude of \<open>2 ^ 1024\<close> or more is not a finite float.  The product of
  two numbers as Python floats is \<open>None\<close> when an operand is too large for a float
  or when the product is an infinity.
\<close>

definition finite_float :: "rat \<Rightarrow> rat option" where
  "finite_float r = (if pow2 1024 \<le> \<bar>r\<bar> then None else Some r)"

definition float_mul :: "rat \<Rightarrow> rat \<Rightarrow> rat option" where
  "float_mul x y =
     (case finite_float (float_round x) of
        None \<Rightarrow> None
      | Some a \<Rightarrow>
          (case finite_float (float_round y) of
             None \<Rightarrow> None
           | Some b \<Rightarrow> finite_float (float_round (a * b))))"

section \<open>Videos, captures and the file system\<close>

text \<open>
  A video file as OpenCV shows it: the properties that \<^verbatim>\<open>cap.get\<close> reports and the
  frames that successive \<^verbatim>\<open>cap.read()\<close> calls deliver.  The properties are Python
  floats, finite doubles, given by the rationals they denote.  The reported frame
  count is container metadata; it is a field of its own because nothing ties it
  to the number of decodable frames.
\<close>

record 'f video =
  v_fps :: rat
  v_frame_count :: rat
  v_width :: rat
  v_height :: rat
  v_frames :: "'f list"

datatype ('f, 'e) entry = Video "'f video" | Array 'e | Other

type_synonym ('f, 'e) fs = "string \<rightharpoonup> ('f, 'e) entry"

text \<open>An open capture: the file it reads and the frames not yet delivered.\<close>

record 'f capture =
  cap_video :: "'f video"
  cap_rest :: "'f list"

text \<open>\<^verbatim>\<open>cv2.VideoCapture(path)\<close>; \<open>None\<close> stands for \<^verbatim>\<open>isOpened() == False\<close>.\<close>

definition VideoCapture :: "('f, 'e) fs \<Rightarrow> string \<Rightarrow> 'f capture option" where
  "VideoCapture fs p =
     (case fs p of
        Some (Video v) \<Rightarrow> Some \<lparr>cap_video = v, cap_rest = v_frames v\<rparr>
      | _ \<Rightarrow> None)"

text \<open>\<^verbatim>\<open>ret, frame = cap.read()\<close>: the next frame, or \<open>None\<close> for \<^verbatim>\<open>ret == False\<close>.\<close>

definition cap_read :: "'f capture \<Rightarrow> 'f option \<times> 'f capture" where
  "cap_read c =
     (case cap_rest c of
        [] \<Rightarrow> (None, c)
      | x # xs \<Rightarrow> (Some x, c\<lparr>cap_rest := xs\<rparr>))"

text \<open>\<^verbatim>\<open>cap.set(cv2.CAP_PROP_POS_FRAMES, i)\<close>: the next read delivers frame \<open>i\<close>.\<close>

definition cap_set_pos :: "'f capture \<Rightarrow> int \<Rightarrow> 'f capture" where
  "cap_set_pos c i = c\<lparr>cap_rest := drop (nat i) (v_frames (cap_video c))\<rparr>"

text \<open>\<^verbatim>\<open>int(x)\<close> on a finite float: truncation toward zero.\<close>

definition py_int :: "rat \<Rightarrow> int" where
  "py_int x = (if 0 \<le> x then \<lfloor>x\<rfloor> else \<lceil>x\<rceil>)"

section \<open>Scene segmentation: \<^verbatim>\<open>split_video\<close>\<close>

text \<open>The one exception these functions raise themselves, and the lines they print.\<close>

datatype error = OverflowError

datatype msg =
    FailedToOpen string
  | Processing string int rat
  | Done string nat
  | Converting string
  | Converted string
  | FFmpegFailed string
  | CouldNotOpen string
  | FailedMiddleFrame string

text \<open>The local variables that the loops of \<^verbatim>\<open>split_video\<close> update.\<close>

record 'f split_state =
  clip_idx :: nat
  frame_idx :: int
  cap :: "'f capture"
  written :: "(string \<times> 'f video) list"

text \<open>
  The inner loop fills one clip:
  \<^verbatim>\<open>while frames_written < clip_frames and frame_idx < total_frames\<close>, leaving at the
  first failed read.  \<open>buf\<close> holds the frames handed to the writer so far.
\<close>

function inner_loop ::
  "int \<Rightarrow> int \<Rightarrow> int \<Rightarrow> int \<Rightarrow> 'f capture \<Rightarrow> 'f list \<Rightarrow> int \<times> int \<times> 'f capture \<times> 'f list" where
  "inner_loop clip_frames total_frames frames_written fidx c buf =
     (if frames_written < clip_frames \<and> fidx < total_frames then
        (case cap_read c of
           (None, c') \<Rightarrow> (frames_written, fidx, c', buf)
         | (Some frame, c') \<Rightarrow>
             inner_loop clip_frames total_frames (frames_written + 1) (fidx + 1) c' (buf @ [frame]))
      else (frames_written, fidx, c, buf))"
  by pat_completeness auto
termination
  by (relation "measure (\<lambda>(cf, tf, fw, fi, c, buf). nat (cf - fw))") auto

declare inner_loop.simps [simp del]

definition clip_name :: "string \<Rightarrow> nat \<Rightarrow> string" where
  "clip_name video_name i = video_name @ ''_clip_'' @ fmt03d i @ ''.mp4''"

text \<open>
  The file a writer leaves when it is released: the frames written, at the frame
  rate of the source and at its size cut to integers.  Read back, it reports as
  many frames as were written.
\<close>

definition clip_file :: "'f video \<Rightarrow> 'f list \<Rightarrow> 'f video" where
  "clip_file src buf =
     \<lparr>v_fps = v_fps src,
      v_frame_count = of_nat (length buf),
      v_width = of_int (py_int (v_width src)),
      v_height = of_int (py_int (v_height src)),
      v_frames = buf\<rparr>"

text \<open>
  One pass through the body of the outer loop: open a writer on the next clip
  name, run the inner loop, release the writer.
\<close>

definition emit_clip :: "string \<Rightarrow> string \<Rightarrow> int \<Rightarrow> int \<Rightarrow> 'f split_state \<Rightarrow> 'f split_state" where
  "emit_clip out_dir video_name clip_frames total_frames st =
     (let out_path = path_join out_dir (clip_name video_name (clip_idx st));
          (frames_written, fidx, c, buf) =
             inner_loop clip_frames total_frames 0 (frame_idx st) (cap st) []
      in \<lparr>clip_idx = clip_idx st + 1,
          frame_idx = fidx,
          cap = c,
          written = written st @ [(out_path, clip_file (cap_video (cap st)) buf)]\<rparr>)"

text \<open>
  The outer loop, \<^verbatim>\<open>while frame_idx < total_frames\<close>.  Nothing in the source bounds
  the number of passes, so the result is optional: \<open>None\<close> is a run that never
  leaves the loop.
\<close>

partial_function (option) outer_loop ::
  "string \<Rightarrow> string \<Rightarrow> int \<Rightarrow> int \<Rightarrow> 'f split_state \<Rightarrow> 'f split_state option" where
  "outer_loop out_dir video_name clip_frames total_frames st =
     (if frame_idx st < total_frames
      then outer_loop out_dir video_name clip_frames total_frames
             (emit_clip out_dir video_name clip_frames total_frames st)
      else Some st)"

declare outer_loop.simps [code]

text \<open>
  \<^verbatim>\<open>clip_frames = int(fps * clip_duration)\<close>: the product is a float product, and
  \<^verbatim>\<open>int\<close> of an infinity raises \<^verbatim>\<open>OverflowError\<close>.
\<close>

definition clip_frames_of :: "rat \<Rightarrow> rat \<Rightarrow> error + int" where
  "clip_frames_of fps clip_duration =
     (case float_mul fps clip_duration of
        None \<Rightarrow> Inl OverflowError
      | Some p \<Rightarrow> Inr (py_int p))"

definition init_state :: "'f capture \<Rightarrow> 'f split_state" where
  "init_state c = \<lparr>clip_idx = 0, frame_idx = 0, cap = c, written = []\<rparr>"

text \<open>The files a list of released writers leaves behind, later writes winning.\<close>

definition apply_writes :: "('f, 'e) fs \<Rightarrow> (string \<times> 'f video) list \<Rightarrow> ('f, 'e) fs" where
  "apply_writes fs ws = foldl (\<lambda>m (p, v). m(p \<mapsto> Video v)) fs ws"

text \<open>
  What \<^verbatim>\<open>split_video\<close> does with an open capture: the local variables when the
  outer loop is left, or the exception raised before it; \<open>None\<close> when the loop is
  never left.
\<close>

definition split_clips ::
  "'f capture \<Rightarrow> string \<Rightarrow> string \<Rightarrow> rat \<Rightarrow> (error + 'f split_state) option" where
  "split_clips c out_dir video_name clip_duration =
     (let fps = v_fps (cap_video c);
          total_frames = py_int (v_frame_count (cap_video c))
      in case clip_frames_of fps clip_duration of
           Inl e \<Rightarrow> Some (Inl e)
         | Inr clip_frames \<Rightarrow>
             map_option Inr (outer_loop out_dir video_name clip_frames total_frames (init_state c)))"

text \<open>
  \<^verbatim>\<open>split_video(file_path, out_dir, clip_duration)\<close>: \<open>Inr\<close> of the file system and
  the lines printed when it returns, \<open>Inl\<close> of the exception when it raises one,
  \<open>None\<close> when it does neither.
\<close>

definition split_video ::
  "('f, 'e) fs \<Rightarrow> string \<Rightarrow> string \<Rightarrow> rat \<Rightarrow> (error + ('f, 'e) fs \<times> msg list) option" where
  "split_video fs file_path out_dir clip_duration =
     (let video_name = fst (splitext (basename file_path)) in
      case VideoCapture fs file_path of
        None \<Rightarrow> Some (Inr (fs, [FailedToOpen file_path]))
      | Some c \<Rightarrow>
          (case split_clips c out_dir video_name clip_duration of
             None \<Rightarrow> None
           | Some (Inl e) \<Rightarrow> Some (Inl e)
           | Some (Inr st) \<Rightarrow>
               Some (Inr (apply_writes fs (written st),
                     [Processing video_name (py_int (v_frame_count (cap_video c))) (v_fps (cap_video c)),
                      Done video_name (clip_idx st)]))))"

section \<open>Format normalisation: \<^verbatim>\<open>convert_to_mp4\<close>\<close>

text \<open>
  FFmpeg is an external process.  It is a parameter of the model: given the
  file system, the input path and the output path it yields an exit status and
  the file system it leaves behind.  \<^verbatim>\<open>subprocess.run(..., check=True)\<close> raises
  \<^verbatim>\<open>CalledProcessError\<close> exactly when the status is not zero.
\<close>

type_synonym ('f, 'e) ffmpeg = "('f, 'e) fs \<Rightarrow> string \<Rightarrow> string \<Rightarrow> int \<times> ('f, 'e) fs"

text \<open>\<^verbatim>\<open>os.path.join(out_dir, base_name + '.mp4')\<close> with the base name of the source.\<close>

definition output_path :: "string \<Rightarrow> string \<Rightarrow> string" where
  "output_path out_dir file_path =
     (let base_name = fst (splitext (basename file_path))
      in path_join out_dir (base_name @ ''.mp4''))"

text \<open>
  The result is the file system, the returned path (\<open>None\<close> is Python's \<^verbatim>\<open>None\<close>)
  and the lines printed.
\<close>

definition convert_to_mp4 ::
  "('f, 'e) ffmpeg \<Rightarrow> ('f, 'e) fs \<Rightarrow> string \<Rightarrow> string \<Rightarrow> ('f, 'e) fs \<times> string option \<times> msg list" where
  "convert_to_mp4 run_ffmpeg fs file_path out_dir =
     (if fs (output_path out_dir file_path) \<noteq> None
      then (fs, Some (output_path out_dir file_path), [])
      else
        (case run_ffmpeg fs file_path (output_path out_dir file_path) of
           (status, fs') \<Rightarrow>
             if status = 0
             then (fs', Some (output_path out_dir file_path),
                   [Converting file_path, Converted (output_path out_dir file_path)])
             else (fs', None, [Converting file_path, FFmpegFailed file_path])))"

section \<open>The driver of the splitting notebook\<close>

definition INPUT_DIR :: string where
  "INPUT_DIR = ''video_data/raw_videos''"

definition TEMP_DIR :: string where
  "TEMP_DIR = ''video_data/converted_videos''"

definition OUTPUT_DIR :: string where
  "OUTPUT_DIR = ''video_data/scenes''"

definition CLIP_DURATION :: rat where
  "CLIP_DURATION = 5"

text \<open>\<^verbatim>\<open>f.lower().endswith(('.mp4', '.avi', '.mov'))\<close>.\<close>

definition is_video_file :: "string \<Rightarrow> bool" where
  "is_video_file f =
     (endswith (lower f) ''.mp4'' \<or> endswith (lower f) ''.avi'' \<or> endswith (lower f) ''.mov'')"

text \<open>
  The \<^verbatim>\<open>for video_file in video_files\<close> loop.  \<^verbatim>\<open>if mp4_path:\<close> is false for
  \<^verbatim>\<open>None\<close> and for the empty string.  A video whose split never returns keeps the
  loop from returning, and an exception of a split ends the loop.
\<close>

fun driver_loop ::
  "('f, 'e) ffmpeg \<Rightarrow> ('f, 'e) fs \<Rightarrow> string list \<Rightarrow> (error + ('f, 'e) fs \<times> msg list) option" where
  "driver_loop run_ffmpeg fs [] = Some (Inr (fs, []))"
| "driver_loop run_ffmpeg fs (video_file # rest) =
     (case convert_to_mp4 run_ffmpeg fs (path_join INPUT_DIR video_file) TEMP_DIR of
        (fs1, mp4_path, out1) \<Rightarrow>
          (case (case mp4_path of
                   None \<Rightarrow> Some (Inr (fs1, []))
                 | Some p \<Rightarrow>
                     if p = [] then Some (Inr (fs1, []))
                     else split_video fs1 p OUTPUT_DIR CLIP_DURATION) of
             None \<Rightarrow> None
           | Some (Inl e) \<Rightarrow> Some (Inl e)
           | Some (Inr (fs2, out2)) \<Rightarrow>
               (case driver_loop run_ffmpeg fs2 rest of
                  None \<Rightarrow> None
                | Some (Inl e) \<Rightarrow> Some (Inl e)
                | Some (Inr (fs3, out3)) \<Rightarrow> Some (Inr (fs3, out1 @ out2 @ out3)))))"

text \<open>\<open>listing\<close> is what \<^verbatim>\<open>os.listdir(INPUT_DIR)\<close> returned.\<close>

definition driver ::
  "('f, 'e) ffmpeg \<Rightarrow> ('f, 'e) fs \<Rightarrow> string list \<Rightarrow> (error + ('f, 'e) fs \<times> msg list) option" where
  "driver run_ffmpeg fs listing = driver_loop run_ffmpeg fs (filter is_video_file listing)"

section \<open>Key frames and embeddings\<close>

text \<open>\<^verbatim>\<open>middle_frame_index = total_frames // 2\<close>.\<close>

definition middle_frame_index :: "int \<Rightarrow> int" where
  "middle_frame_index total_frames = total_frames div 2"

definition extract_middle_frame :: "('f, 'e) fs \<Rightarrow> string \<Rightarrow> 'f option \<times> msg list" where
  "extract_middle_frame fs video_path =
     (case VideoCapture fs video_path of
        None \<Rightarrow> (None, [CouldNotOpen video_path])
      | Some c \<Rightarrow>
          (let total_frames = py_int (v_frame_count (cap_video c));
               c1 = cap_set_pos c (middle_frame_index total_frames)
           in case cap_read c1 of
                (None, c2) \<Rightarrow> (None, [FailedMiddleFrame video_path])
              | (Some frame, c2) \<Rightarrow> (Some frame, [])))"

text \<open>
  The colour conversion, the CLIP processor and the CLIP model together are one
  function from a frame to a vector, the parameter \<open>encoder\<close>.
\<close>

definition generate_clip_embedding ::
  "('f \<Rightarrow> 'e) \<Rightarrow> ('f, 'e) fs \<Rightarrow> string \<Rightarrow> 'e option \<times> msg list" where
  "generate_clip_embedding encoder fs video_path =
     (case extract_middle_frame fs video_path of
        (None, out) \<Rightarrow> (None, out)
      | (Some frame, out) \<Rightarrow> (Some (encoder frame), out))"

definition SCENE_DIR :: string where
  "SCENE_DIR = ''video_data/scenes''"

definition EMBEDDING_DIR :: string where
  "EMBEDDING_DIR = ''embeddings''"

text \<open>\<^verbatim>\<open>scene_file.replace('.mp4', '.npy')\<close>.\<close>

definition embedding_name :: "string \<Rightarrow> string" where
  "embedding_name scene_file = py_replace ''.mp4'' ''.npy'' scene_file"

text \<open>
  \<^verbatim>\<open>np.save(file, arr)\<close> appends \<^verbatim>\<open>.npy\<close> to a name that does not end with it;
  \<open>npy_file\<close> is the name of the file it writes.
\<close>

definition npy_file :: "string \<Rightarrow> string" where
  "npy_file file = (if endswith file ''.npy'' then file else file @ ''.npy'')"

definition np_save :: "('f, 'e) fs \<Rightarrow> string \<Rightarrow> 'e \<Rightarrow> ('f, 'e) fs" where
  "np_save fs file arr = fs(npy_file file \<mapsto> Array arr)"

text \<open>
  The \<^verbatim>\<open>for scene_file in scene_files\<close> loop: the file system it leaves and the
  lines printed.
\<close>

fun embedding_loop ::
  "('f \<Rightarrow> 'e) \<Rightarrow> ('f, 'e) fs \<Rightarrow> string list \<Rightarrow> ('f, 'e) fs \<times> msg list" where
  "embedding_loop encoder fs [] = (fs, [])"
| "embedding_loop encoder fs (scene_file # rest) =
     (case generate_clip_embedding encoder fs (path_join SCENE_DIR scene_file) of
        (None, out) \<Rightarrow>
          (case embedding_loop encoder fs rest of
             (fs', out') \<Rightarrow> (fs', out @ out'))
      | (Some embedding, out) \<Rightarrow>
          (case embedding_loop encoder
                  (np_save fs (path_join EMBEDDING_DIR (embedding_name scene_file)) embedding) rest of
             (fs', out') \<Rightarrow> (fs', out @ out')))"

text \<open>\<^verbatim>\<open>sorted([f for f in os.listdir(SCENE_DIR) if f.lower().endswith('.mp4')])\<close>.\<close>

definition scene_files_of :: "string list \<Rightarrow> string list" where
  "scene_files_of listing = sort (filter (\<lambda>f. endswith (lower f) ''.mp4'') listing)"

definition embedding_stage ::
  "('f \<Rightarrow> 'e) \<Rightarrow> ('f, 'e) fs \<Rightarrow> string list \<Rightarrow> ('f, 'e) fs \<times> msg list" where
  "embedding_stage encoder fs listing = embedding_loop encoder fs (scene_files_of listing)"

section \<open>Notions used to state the properties\<close>

text \<open>The number of frames in each clip written so far, in writing order.\<close>

definition clip_sizes :: "'f split_state \<Rightarrow> nat list" where
  "clip_sizes st = map (length \<circ> v_frames \<circ> snd) (written st)"

text \<open>The number of frames the next pass of the outer loop writes.\<close>

definition clip_budget :: "int \<Rightarrow> int \<Rightarrow> 'f split_state \<Rightarrow> nat" where
  "clip_budget cf tf st = min (min (nat cf) (nat (tf - frame_idx st))) (length (cap_rest (cap st)))"

text \<open>
  A state in which the outer loop goes on and a pass changes nothing but the clip
  counter: the clip length is not positive, or the capture has no frame left.
\<close>

definition stuck :: "int \<Rightarrow> int \<Rightarrow> 'f split_state \<Rightarrow> bool" where
  "stuck cf tf st \<longleftrightarrow> frame_idx st < tf \<and> (cf \<le> 0 \<or> cap_rest (cap st) = [])"

text \<open>The path of clip \<open>k\<close>, and the value of a string of decimal digits.\<close>

definition clip_path :: "string \<Rightarrow> string \<Rightarrow> nat \<Rightarrow> string" where
  "clip_path out_dir video_name k = path_join out_dir (clip_name video_name k)"

definition undec :: "string \<Rightarrow> nat" where
  "undec s = foldl (\<lambda>a c. 10 * a + (of_char c - 48)) 0 s"

text \<open>
  Cutting the first \<open>n\<close> frames of a stream into clips of \<open>len\<close> frames: the number
  of clips, and the frames of clip \<open>k\<close>, those at the offsets from \<open>k * len\<close> up to
  \<open>(k + 1) * len\<close> or \<open>n\<close>, whichever is less.
\<close>

definition clip_count :: "nat \<Rightarrow> nat \<Rightarrow> nat" where
  "clip_count n len = (if n = 0 then 0 else (n + len - 1) div len)"

definition clip_slice :: "'f list \<Rightarrow> nat \<Rightarrow> nat \<Rightarrow> nat \<Rightarrow> 'f list" where
  "clip_slice frames n len k = take len (drop (k * len) (take n frames))"

text \<open>
  The middle frame of a scene file, and the file that \<^verbatim>\<open>np.save\<close> writes for it.
\<close>

definition key_frame :: "('f, 'e) fs \<Rightarrow> string \<Rightarrow> 'f option" where
  "key_frame fs scene_file = fst (extract_middle_frame fs (path_join SCENE_DIR scene_file))"

definition artifact_file :: "string \<Rightarrow> string" where
  "artifact_file scene_file = npy_file (path_join EMBEDDING_DIR (embedding_name scene_file))"

text \<open>
  The file system when the scene loop reaches scene file number \<open>i\<close>: what the
  passes for the first \<open>i\<close> scene files have left.
\<close>

definition fs_before :: "('f \<Rightarrow> 'e) \<Rightarrow> ('f, 'e) fs \<Rightarrow> string list \<Rightarrow> nat \<Rightarrow> ('f, 'e) fs" where
  "fs_before encoder fs scene_files i = fst (embedding_loop encoder fs (take i scene_files))"

text \<open>The files found at some paths of a file system, with the lines printed.\<close>

definition snapshot :: "string list \<Rightarrow> ('f, 'e) fs \<times> msg list \<Rightarrow> ('f, 'e) entry option list \<times> msg list" where
  "snapshot paths r = (map (fst r) paths, snd r)"

text \<open>The clip length as the specification words it, with rounding to the nearest integer.\<close>

definition spec_clip_frame_count :: "rat \<Rightarrow> rat \<Rightarrow> int" where
  "spec_clip_frame_count frame_rate clip_duration = round (frame_rate * clip_duration)"



section \<open>Sample inputs\<close>

text \<open>
  Small videos on which the properties below are evaluated.  Frames are numbered;
  \<open>demo_video\<close> has five frames at one frame per second, \<open>slow_video\<close> runs at
  1.75 frames per second, \<open>zero_fps_video\<close> reports a frame rate of zero and
  \<open>short_video\<close> reports two frames but delivers one.
\<close>

definition demo_video :: "nat video" where
  "demo_video = \<lparr>v_fps = 1, v_frame_count = 5, v_width = 4, v_height = 3, v_frames = [10, 11, 12, 13, 14]\<rparr>"

definition demo_cap :: "nat capture" where
  "demo_cap = \<lparr>cap_video = demo_video, cap_rest = v_frames demo_video\<rparr>"

definition demo_clips :: "(string \<times> nat video) list" where
  "demo_clips =
     [(''video_data/scenes/v_clip_000.mp4'', clip_file demo_video [10, 11]),
      (''video_data/scenes/v_clip_001.mp4'', clip_file demo_video [12, 13]),
      (''video_data/scenes/v_clip_002.mp4'', clip_file demo_video [14])]"

definition demo_final :: "nat split_state" where
  "demo_final = \<lparr>clip_idx = 3, frame_idx = 5, cap = demo_cap\<lparr>cap_rest := []\<rparr>, written = demo_clips\<rparr>"

definition slow_video :: "nat video" where
  "slow_video = \<lparr>v_fps = 7 / 4, v_frame_count = 3, v_width = 4, v_height = 3, v_frames = [10, 11, 12]\<rparr>"

definition slow_fs :: "(nat, nat) fs" where
  "slow_fs = [''video_data/converted_videos/s.mp4'' \<mapsto> Video slow_video]"

definition zero_fps_video :: "nat video" where
  "zero_fps_video = \<lparr>v_fps = 0, v_frame_count = 1, v_width = 4, v_height = 3, v_frames = [10]\<rparr>"

definition short_video :: "nat video" where
  "short_video = \<lparr>v_fps = 24, v_frame_count = 2, v_width = 4, v_height = 3, v_frames = [10]\<rparr>"

definition short_cap :: "nat capture" where
  "short_cap = \<lparr>cap_video = short_video, cap_rest = v_frames short_video\<rparr>"

text \<open>
  A video that holds five frames and reports three, and one that holds a frame
  and reports a count of \<open>-1\<close>, each as the only file of a file system.
\<close>

definition under_video :: "nat video" where
  "under_video = \<lparr>v_fps = 1, v_frame_count = 3, v_width = 4, v_height = 3, v_frames = [10, 11, 12, 13, 14]\<rparr>"

definition under_fs :: "(nat, nat) fs" where
  "under_fs = [''video_data/converted_videos/u.mp4'' \<mapsto> Video under_video]"

definition negative_video :: "nat video" where
  "negative_video = \<lparr>v_fps = 1, v_frame_count = - 1, v_width = 4, v_height = 3, v_frames = [10]\<rparr>"

definition negative_fs :: "(nat, nat) fs" where
  "negative_fs = [''video_data/converted_videos/n.mp4'' \<mapsto> Video negative_video]"

text \<open>
  A file system holding the converted five-frame video, and an FFmpeg that always
  exits with status 1 and writes nothing.
\<close>

definition demo_fs :: "(nat, nat) fs" where
  "demo_fs = [''video_data/converted_videos/v.mp4'' \<mapsto> Video demo_video]"

definition failing_ffmpeg :: "(nat, nat) ffmpeg" where
  "failing_ffmpeg fs input_path out_path = (1, fs)"

text \<open>
  A scene directory with two readable clips, one file that does not open and one
  clip without frames, the listing of that directory, and an encoder on numbered
  frames.
\<close>

definition demo_encoder :: "nat \<Rightarrow> nat" where
  "demo_encoder frame = frame + 100"

definition scene_fs :: "(nat, nat) fs" where
  "scene_fs =
     [''video_data/scenes/v_clip_000.mp4'' \<mapsto> Video (clip_file demo_video [10, 11]),
      ''video_data/scenes/w_clip_000.mp4'' \<mapsto> Other,
      ''video_data/scenes/x_clip_000.mp4'' \<mapsto> Video (clip_file demo_video [12, 13, 14]),
      ''video_data/scenes/y_clip_000.mp4'' \<mapsto> Video (clip_file demo_video [])]"

definition scene_listing :: "string list" where
  "scene_listing =
     [''w_clip_000.mp4'', ''notes.txt'', ''y_clip_000.mp4'', ''v_clip_000.mp4'', ''x_clip_000.mp4'']"

section \<open>The loops of \<^verbatim>\<open>split_video\<close>\<close>

subsection \<open>One clip\<close>

lemma inner_loop_eq:
  "inner_loop cf tf fw fi c buf =
     (let k = min (min (nat (cf - fw)) (nat (tf - fi))) (length (cap_rest c))
      in (fw + int k, fi + int k, c\<lparr>cap_rest := drop k (cap_rest c)\<rparr>, buf @ take k (cap_rest c)))"
proof (induction cf tf fw fi c buf rule: inner_loop.induct)
  case (1 cf tf fw fi c buf)
  show ?case
  proof (cases "fw < cf \<and> fi < tf")
    case False
    then show ?thesis
      by (subst inner_loop.simps) (auto simp: Let_def)
  next
    case True
    show ?thesis
    proof (cases "cap_rest c")
      case Nil
      with True show ?thesis
        by (subst inner_loop.simps) (simp add: cap_read_def)
    next
      case (Cons x xs)
      have rd: "cap_read c = (Some x, c\<lparr>cap_rest := xs\<rparr>)"
        by (simp add: cap_read_def Cons)
      from True have a: "nat (cf - fw) = Suc (nat (cf - (fw + 1)))"
        and b: "nat (tf - fi) = Suc (nat (tf - (fi + 1)))"
        by arith+
      show ?thesis
        using True 1(1)[OF True rd[symmetric] refl] 
        by (subst inner_loop.simps) (simp add: rd Cons Let_def a b)
    qed
  qed
qed

lemma emit_clip_eq:
  "emit_clip od vn cf tf st =
     \<lparr>clip_idx = Suc (clip_idx st),
      frame_idx = frame_idx st + int (clip_budget cf tf st),
      cap = (cap st)\<lparr>cap_rest := drop (clip_budget cf tf st) (cap_rest (cap st))\<rparr>,
      written = written st @
        [(path_join od (clip_name vn (clip_idx st)),
          clip_file (cap_video (cap st)) (take (clip_budget cf tf st) (cap_rest (cap st))))]\<rparr>"
  by (simp add: emit_clip_def inner_loop_eq clip_budget_def Let_def)

lemma emit_clip_sel:
  "clip_idx (emit_clip od vn cf tf st) = Suc (clip_idx st)"
  "frame_idx (emit_clip od vn cf tf st) = frame_idx st + int (clip_budget cf tf st)"
  "cap_rest (cap (emit_clip od vn cf tf st)) = drop (clip_budget cf tf st) (cap_rest (cap st))"
  "cap_video (cap (emit_clip od vn cf tf st)) = cap_video (cap st)"
  "written (emit_clip od vn cf tf st) = written st @
        [(path_join od (clip_name vn (clip_idx st)),
          clip_file (cap_video (cap st)) (take (clip_budget cf tf st) (cap_rest (cap st))))]"
  by (simp_all add: emit_clip_eq)

subsection \<open>Invariants, divergence and termination of the outer loop\<close>

text \<open>
  An invariant of the loop body holds in the state the loop returns, and the loop
  condition is false there.
\<close>

lemma outer_loop_rule:
  assumes run: "outer_loop od vn cf tf st = Some t"
    and init: "I st"
    and step: "\<And>s. I s \<Longrightarrow> frame_idx s < tf \<Longrightarrow> I (emit_clip od vn cf tf s)"
  shows "I t \<and> \<not> frame_idx t < tf"
proof -
  let ?P = "\<lambda>a b c d x y.
     a = od \<longrightarrow> b = vn \<longrightarrow> c = cf \<longrightarrow> d = tf \<longrightarrow> I x \<longrightarrow> I y \<and> \<not> frame_idx y < tf"
  have "?P od vn cf tf st t"
  proof (rule outer_loop.raw_induct[where P = ?P, OF _ run])
    fix f a b c d x y
    assume IH: "\<And>a b c d x y. f a b c d x = Some y \<Longrightarrow> ?P a b c d x y"
      and body: "(if frame_idx x < d then f a b c d (emit_clip a b c d x) else Some x) = Some y"
    show "?P a b c d x y"
    proof (intro impI)
      assume eqs: "a = od" "b = vn" "c = cf" "d = tf" and Ix: "I x"
      show "I y \<and> \<not> frame_idx y < tf"
      proof (cases "frame_idx x < tf")
        case True
        with body eqs have "f od vn cf tf (emit_clip od vn cf tf x) = Some y"
          by simp
        from IH[OF this] step[OF Ix True] show ?thesis
          by simp
      next
        case False
        with body eqs Ix show ?thesis
          by simp
      qed
    qed
  qed
  with init show ?thesis
    by simp
qed

lemma stuck_step:
  "stuck cf tf s \<Longrightarrow> stuck cf tf (emit_clip od vn cf tf s)"
  by (auto simp: stuck_def emit_clip_sel clip_budget_def)

lemma stuck_diverges:
  assumes "stuck cf tf st"
  shows "outer_loop od vn cf tf st = None"
proof (cases "outer_loop od vn cf tf st")
  case None
  then show ?thesis .
next
  case (Some t)
  from outer_loop_rule[where I = "stuck cf tf", OF Some assms stuck_step]
  show ?thesis
    by (auto simp: stuck_def)
qed

lemma short_stream_diverges:
  assumes "int (length (cap_rest (cap st))) < tf - frame_idx st"
  shows "outer_loop od vn cf tf st = None"
proof (cases "outer_loop od vn cf tf st")
  case None
  then show ?thesis .
next
  case (Some t)
  have "int (length (cap_rest (cap t))) < tf - frame_idx t \<and> \<not> frame_idx t < tf"
    by (rule outer_loop_rule[where I = "\<lambda>s. int (length (cap_rest (cap s))) < tf - frame_idx s", OF Some assms])
      (auto simp: emit_clip_sel clip_budget_def)
  then show ?thesis
    by auto
qed

lemma outer_loop_terminates:
  assumes "0 < cf" and "tf - frame_idx st \<le> int (length (cap_rest (cap st)))"
  shows "\<exists>t. outer_loop od vn cf tf st = Some t"
  using assms
proof (induction "nat (tf - frame_idx st)" arbitrary: st rule: less_induct)
  case less
  show ?case
  proof (cases "frame_idx st < tf")
    case False
    then show ?thesis
      by (subst outer_loop.simps) simp
  next
    case True
    let ?s = "emit_clip od vn cf tf st"
    have pos: "0 < clip_budget cf tf st"
      using True less.prems by (auto simp: clip_budget_def)
    have "nat (tf - frame_idx ?s) < nat (tf - frame_idx st)"
      using True pos by (simp add: emit_clip_sel)
    moreover have "tf - frame_idx ?s \<le> int (length (cap_rest (cap ?s)))"
      using less.prems True by (auto simp: emit_clip_sel clip_budget_def)
    ultimately obtain t where "outer_loop od vn cf tf ?s = Some t"
      using less.hyps[of ?s] less.prems(1) by blast
    with True show ?thesis
      by (subst outer_loop.simps) simp
  qed
qed

lemma outer_loop_returns_iff:
  "(\<exists>t. outer_loop od vn cf tf st = Some t) \<longleftrightarrow>
     (tf \<le> frame_idx st \<or> (0 < cf \<and> tf - frame_idx st \<le> int (length (cap_rest (cap st)))))"
proof
  assume "\<exists>t. outer_loop od vn cf tf st = Some t"
  then show "tf \<le> frame_idx st \<or> (0 < cf \<and> tf - frame_idx st \<le> int (length (cap_rest (cap st))))"
    using stuck_diverges[of cf tf st od vn] short_stream_diverges[of st tf od vn cf]
    by (fastforce simp: stuck_def)
next
  assume "tf \<le> frame_idx st \<or> (0 < cf \<and> tf - frame_idx st \<le> int (length (cap_rest (cap st))))"
  then show "\<exists>t. outer_loop od vn cf tf st = Some t"
  proof
    assume "tf \<le> frame_idx st"
    then show ?thesis
      by (subst outer_loop.simps) simp
  next
    assume "0 < cf \<and> tf - frame_idx st \<le> int (length (cap_rest (cap st)))"
    then show ?thesis
      using outer_loop_terminates by blast
  qed
qed

subsection \<open>What a returning run has written\<close>

lemma clip_sizes_emit:
  "clip_sizes (emit_clip od vn cf tf s) = clip_sizes s @ [clip_budget cf tf s]"
  by (simp add: clip_sizes_def emit_clip_sel clip_file_def clip_budget_def)

lemma init_state_sel:
  "clip_idx (init_state c) = 0" "frame_idx (init_state c) = 0"
  "cap (init_state c) = c" "written (init_state c) = []"
  by (simp_all add: init_state_def)

lemma stuck_emits_empty_clip:
  "stuck cf tf s \<Longrightarrow> clip_sizes (emit_clip od vn cf tf s) = clip_sizes s @ [0]"
  by (auto simp: stuck_def clip_sizes_emit clip_budget_def)

lemma clip_slice_budget:
  "clip_slice frames n len k = take (min len (n - k * len)) (drop (k * len) frames)"
  by (simp add: clip_slice_def drop_take)

lemma clip_count_unique:
  assumes "0 < n" and "0 < len" and "n \<le> j * len" and "(j - 1) * len < n"
  shows "clip_count n len = j"
proof -
  from assms have j: "0 < j"
    by (cases j) simp_all
  then obtain i where i: "j = Suc i"
    by (cases j) simp_all
  with assms have "j * len \<le> n + len - 1" "n + len - 1 < Suc j * len"
    by simp_all
  then have "(n + len - 1) div len = j"
    by (metis div_nat_eqI mult.commute)
  with assms(1) show ?thesis
    by (simp add: clip_count_def)
qed

text \<open>
  A returning run with a positive frame count: after \<open>j\<close> passes the loop has
  consumed \<open>min (j * len) n\<close> frames and written the first \<open>j\<close> slices.
\<close>

lemma outer_loop_slices:
  assumes run: "outer_loop od vn cf tf (init_state c) = Some (st :: 'f split_state)"
    and cf: "0 < cf" and tf: "0 < tf" and enough: "tf \<le> int (length (cap_rest c))"
  shows "clip_idx st = clip_count (nat tf) (nat cf)
       \<and> written st =
           map (\<lambda>k. (path_join od (clip_name vn k),
                      clip_file (cap_video c) (clip_slice (cap_rest c) (nat tf) (nat cf) k)))
             [0..<clip_count (nat tf) (nat cf)]"
proof -
  let ?n = "nat tf" and ?len = "nat cf" and ?frames = "cap_rest c"
  let ?clip = "\<lambda>k. (path_join od (clip_name vn k),
                      clip_file (cap_video c) (clip_slice ?frames ?n ?len k))"
  let ?I = "\<lambda>s :: 'f split_state.
      frame_idx s = int (min (clip_idx s * ?len) ?n)
      \<and> cap_rest (cap s) = drop (min (clip_idx s * ?len) ?n) ?frames
      \<and> cap_video (cap s) = cap_video c
      \<and> written s = map ?clip [0..<clip_idx s]
      \<and> (clip_idx s = 0 \<or> (clip_idx s - 1) * ?len < ?n)"
  have "?I st \<and> \<not> frame_idx st < tf"
  proof (rule outer_loop_rule[where I = ?I, OF run])
    show "?I (init_state c)"
      by (simp add: init_state_sel)
  next
    fix s :: "'f split_state"
    assume I: "?I s" and go: "frame_idx s < tf"
    let ?j = "clip_idx s"
    from I have fi0: "frame_idx s = int (min (?j * ?len) ?n)"
      and rest0: "cap_rest (cap s) = drop (min (?j * ?len) ?n) ?frames"
      by blast+
    from go have "int (min (?j * ?len) ?n) < tf"
      by (simp only: fi0)
    then have "min (?j * ?len) ?n < ?n"
      by linarith
    then have lt: "?j * ?len < ?n"
      by simp
    then have m: "min (?j * ?len) ?n = ?j * ?len"
      by simp
    have fi: "frame_idx s = int (?j * ?len)" and rest: "cap_rest (cap s) = drop (?j * ?len) ?frames"
      using fi0 rest0 by (simp_all only: m)
    have budget: "clip_budget cf tf s = min ?len (?n - ?j * ?len)"
    proof -
      define a where "a = ?j * ?len"
      have "nat (tf - int a) = ?n - a"
        by arith
      moreover have "?n - a \<le> length ?frames - a"
        using enough by arith
      ultimately show ?thesis
        unfolding clip_budget_def fi rest a_def[symmetric] by (simp add: min_def)
    qed
    have step: "?j * ?len + min ?len (?n - ?j * ?len) = min (Suc ?j * ?len) ?n"
      using lt by (simp add: min_def)
    have "frame_idx (emit_clip od vn cf tf s) = int (?j * ?len + min ?len (?n - ?j * ?len))"
      by (simp only: emit_clip_sel budget fi of_nat_add)
    then have "frame_idx (emit_clip od vn cf tf s) = int (min (Suc ?j * ?len) ?n)"
      by (simp only: step)
    moreover have "cap_rest (cap (emit_clip od vn cf tf s)) =
        drop (?j * ?len + min ?len (?n - ?j * ?len)) ?frames"
      by (simp only: emit_clip_sel budget rest drop_drop add.commute)
    then have "cap_rest (cap (emit_clip od vn cf tf s)) = drop (min (Suc ?j * ?len) ?n) ?frames"
      by (simp only: step)
    moreover have "written (emit_clip od vn cf tf s) = map ?clip [0..<Suc ?j]"
      using I by (simp add: emit_clip_sel budget rest clip_slice_budget)
    ultimately show "?I (emit_clip od vn cf tf s)"
      using I lt by (simp add: emit_clip_sel)
  qed
  then have I: "?I st" and stop: "tf \<le> frame_idx st"
    by simp_all
  from I have "frame_idx st = int (min (clip_idx st * ?len) ?n)"
    by blast
  with stop have "tf \<le> int (min (clip_idx st * ?len) ?n)"
    by (simp only:)
  then have "?n \<le> min (clip_idx st * ?len) ?n"
    by linarith
  then have "?n \<le> clip_idx st * ?len"
    by simp
  moreover from this tf have "clip_idx st \<noteq> 0"
    by (cases "clip_idx st") simp_all
  with I have "(clip_idx st - 1) * ?len < ?n"
    by simp
  ultimately have "clip_count ?n ?len = clip_idx st"
    using cf tf by (intro clip_count_unique) simp_all
  with I show ?thesis
    by simp
qed

lemma outer_loop_no_frames:
  assumes "tf \<le> 0"
  shows "outer_loop od vn cf tf (init_state c) = Some (init_state c)"
  using assms by (subst outer_loop.simps) (simp add: init_state_sel)

text \<open>What a returning run has written, whatever the frame count.\<close>

lemma outer_loop_result:
  assumes run: "outer_loop od vn cf tf (init_state c) = Some (st :: 'f split_state)"
  shows "(nat tf = 0 \<or> 0 < cf) \<and> nat tf \<le> length (cap_rest c)
       \<and> clip_idx st = clip_count (nat tf) (nat cf)
       \<and> written st =
           map (\<lambda>k. (path_join od (clip_name vn k),
                      clip_file (cap_video c) (clip_slice (cap_rest c) (nat tf) (nat cf) k)))
             [0..<clip_count (nat tf) (nat cf)]"
proof (cases "tf \<le> 0")
  case True
  with run outer_loop_no_frames[OF True, of od vn cf c] have "st = init_state c"
    by simp
  with True show ?thesis
    by (simp add: init_state_sel clip_count_def)
next
  case False
  from run have "\<exists>t. outer_loop od vn cf tf (init_state c) = Some t"
    by blast
  with False have cf: "0 < cf" and enough: "tf \<le> int (length (cap_rest c))"
    by (simp_all add: outer_loop_returns_iff init_state_sel)
  from False outer_loop_slices[OF run cf _ enough] cf enough show ?thesis
    by simp
qed

section \<open>File names\<close>

subsection \<open>Path functions\<close>

lemma rfind_ge: "- 1 \<le> rfind s c"
  by (induction s) (auto simp: Let_def)

lemma rfind_found:
  "rfind s c \<noteq> - 1 \<Longrightarrow> nat (rfind s c) < length s \<and> s ! nat (rfind s c) = c"
proof (induction s)
  case Nil
  then show ?case by simp
next
  case (Cons x xs)
  show ?case
  proof (cases "rfind xs c = - 1")
    case True
    with Cons.prems show ?thesis
      by (auto simp: Let_def split: if_splits)
  next
    case False
    with Cons.IH have "nat (rfind xs c) < length xs" "xs ! nat (rfind xs c) = c"
      by simp_all
    moreover from False rfind_ge[of xs c] have "nat (rfind xs c + 1) = Suc (nat (rfind xs c))"
      by simp
    ultimately show ?thesis
      using False by (simp add: Let_def)
  qed
qed

lemma splitext_parts:
  assumes "splitext p = (r, e)"
  shows "r @ e = p" and "e \<noteq> [] \<Longrightarrow> hd e = extsep"
proof -
  let ?d = "rfind p extsep"
  have "r @ e = p \<and> (e \<noteq> [] \<longrightarrow> hd e = extsep)"
  proof (cases "e = []")
    case True
    with assms show ?thesis
      by (auto simp: splitext_def Let_def split: if_splits)
  next
    case False
    with assms have re: "r = take (nat ?d) p" "e = drop (nat ?d) p" and gt: "rfind p sep < ?d"
      by (auto simp: splitext_def Let_def split: if_splits)
    from gt rfind_ge[of p sep] have "?d \<noteq> - 1"
      by simp
    from rfind_found[OF this] have "hd (drop (nat ?d) p) = extsep"
      by (simp add: hd_drop_conv_nth)
    with re show ?thesis
      by simp
  qed
  then show "r @ e = p" and "e \<noteq> [] \<Longrightarrow> hd e = extsep"
    by simp_all
qed

lemma splitext_root_subset: "set (fst (splitext p)) \<subseteq> set p"
  by (auto simp: splitext_def Let_def dest: in_set_takeD)

lemma basename_no_sep: "sep \<notin> set (basename p)"
proof
  assume "sep \<in> set (basename p)"
  then have "sep \<in> set (takeWhile (\<lambda>c. c \<noteq> sep) (rev p))"
    by (simp add: basename_def)
  then show False
    by (auto dest: set_takeWhileD)
qed

lemma base_name_no_sep: "sep \<notin> set (fst (splitext (basename p)))"
  using splitext_root_subset[of "basename p"] basename_no_sep[of p] by blast

lemma basename_append_sep:
  assumes "sep \<notin> set n"
  shows "basename (a @ sep # n) = n"
proof -
  have "takeWhile (\<lambda>c. c \<noteq> sep) (rev n @ sep # rev a) = rev n @ takeWhile (\<lambda>c. c \<noteq> sep) (sep # rev a)"
    using assms by (intro takeWhile_append2) auto
  then show ?thesis
    by (simp add: basename_def)
qed

lemma basename_no_sep_id:
  assumes "sep \<notin> set n"
  shows "basename n = n"
proof -
  have "takeWhile (\<lambda>c. c \<noteq> sep) (rev n) = rev n"
    using assms by auto
  then show ?thesis
    by (simp only: basename_def rev_rev_ident)
qed

lemma basename_dir_append:
  assumes "sep \<notin> set n" and "a \<noteq> []" and "last a = sep"
  shows "basename (a @ n) = n"
proof -
  from assms(2,3) obtain b where "a = b @ [sep]"
    by (metis append_butlast_last_id)
  moreover from assms(1) have "basename (b @ sep # n) = n"
    by (rule basename_append_sep)
  ultimately show ?thesis
    by simp
qed

lemma path_join_plain:
  assumes "sep \<notin> set n"
  shows "path_join d n = (if d = [] \<or> last d = sep then d @ n else d @ sep # n)"
  using assms by (cases n) (auto simp: path_join_def)

lemma basename_path_join:
  assumes "sep \<notin> set n"
  shows "basename (path_join d n) = n"
proof (cases "d = []")
  case True
  with assms show ?thesis
    by (simp add: path_join_plain basename_no_sep_id)
next
  case False
  with assms show ?thesis
    by (simp add: path_join_plain basename_append_sep basename_dir_append)
qed

lemma path_join_inject:
  assumes "sep \<notin> set m" and "sep \<notin> set n"
  shows "path_join d m = path_join d n \<longleftrightarrow> m = n"
  using assms by (auto simp: path_join_plain)

lemma digit_not_sep: "d < 10 \<Longrightarrow> char_of (48 + d :: nat) \<noteq> sep"
proof
  assume d: "d < 10" and eq: "char_of (48 + d) = sep"
  then have "of_char (char_of (48 + d) :: char) = (of_char sep :: nat)"
    by simp
  with d show False
    by (simp add: sep_def)
qed

lemma dec_no_sep: "sep \<notin> set (dec n)"
proof (induction n rule: dec.induct)
  case (1 n)
  show ?case
  proof (cases "n < 10")
    case True
    then show ?thesis
      using digit_not_sep[of n] by (subst dec.simps) auto
  next
    case False
    with 1 show ?thesis
      using digit_not_sep[of "n mod 10"] by (subst dec.simps) auto
  qed
qed

lemma fmt03d_no_sep: "sep \<notin> set (fmt03d n)"
  using dec_no_sep[of n] by (auto simp: fmt03d_def Let_def sep_def)

lemma clip_name_no_sep: "sep \<notin> set vn \<Longrightarrow> sep \<notin> set (clip_name vn i)"
  using fmt03d_no_sep[of i] by (auto simp: clip_name_def sep_def)

lemma clip_path_not_source:
  "path_join out_dir (clip_name (fst (splitext (basename file_path))) i) \<noteq> file_path"
proof
  let ?vn = "fst (splitext (basename file_path))"
  assume eq: "path_join out_dir (clip_name ?vn i) = file_path"
  have "sep \<notin> set (clip_name ?vn i)"
    by (rule clip_name_no_sep) (rule base_name_no_sep)
  from basename_path_join[OF this, of out_dir] eq
  have base: "basename file_path = clip_name ?vn i"
    by simp
  obtain r e where re: "splitext (basename file_path) = (r, e)"
    by (cases "splitext (basename file_path)")
  from splitext_parts(1)[OF re] base re have "r @ e = r @ ''_clip_'' @ fmt03d i @ ''.mp4''"
    by (simp add: clip_name_def)
  then have e: "e = ''_clip_'' @ fmt03d i @ ''.mp4''"
    by simp
  then have "e \<noteq> []" "hd e \<noteq> extsep"
    by (simp_all add: extsep_def)
  with splitext_parts(2)[OF re] show False
    by simp
qed

subsection \<open>Clip names\<close>

text \<open>The index of a clip can be read back from its name, so clips of one video get distinct names.\<close>

lemma undec_snoc: "undec (s @ [c]) = 10 * undec s + (of_char c - 48)"
  by (simp add: undec_def)

lemma undec_digit: "d < 10 \<Longrightarrow> (of_char (char_of (48 + d :: nat) :: char) :: nat) - 48 = d"
  by simp

lemma undec_dec: "undec (dec n) = n"
proof (induction n rule: dec.induct)
  case (1 n)
  show ?case
  proof (cases "n < 10")
    case True
    then show ?thesis
      by (subst dec.simps) (simp add: undec_def)
  next
    case False
    with 1 have "undec (dec (n div 10)) = n div 10"
      by simp
    with False show ?thesis
      by (subst dec.simps) (simp add: undec_snoc)
  qed
qed

lemma undec_zeros: "undec (replicate k (CHR ''0'') @ s) = undec s"
proof -
  have "foldl (\<lambda>a c. 10 * a + (of_char c - 48)) 0 (replicate k (CHR ''0'')) = (0::nat)"
    by (induction k) simp_all
  then show ?thesis
    by (simp add: undec_def)
qed

lemma undec_fmt03d: "undec (fmt03d n) = n"
  by (simp add: fmt03d_def Let_def undec_zeros undec_dec)

lemma fmt03d_inject: "fmt03d i = fmt03d j \<longleftrightarrow> i = j"
  by (metis undec_fmt03d)

lemma clip_name_inject: "clip_name vn i = clip_name vn j \<longleftrightarrow> i = j"
  by (simp add: clip_name_def fmt03d_inject)

lemma clip_path_inject:
  assumes "sep \<notin> set vn"
  shows "clip_path od vn i = clip_path od vn j \<longleftrightarrow> i = j"
  using assms by (simp add: clip_path_def path_join_inject clip_name_no_sep clip_name_inject)

subsection \<open>Files left by released writers\<close>

lemma apply_writes_Nil: "apply_writes fs [] = fs"
  by (simp add: apply_writes_def)

lemma apply_writes_Cons: "apply_writes fs ((p, v) # ws) = apply_writes (fs(p \<mapsto> Video v)) ws"
  by (simp add: apply_writes_def)

lemma apply_writes_other: "p \<notin> fst ` set ws \<Longrightarrow> apply_writes fs ws p = fs p"
proof (induction ws arbitrary: fs)
  case Nil
  then show ?case by (simp add: apply_writes_Nil)
next
  case (Cons w ws)
  then show ?case
    by (cases w) (auto simp: apply_writes_Cons)
qed

lemma map_add_upd_left: "m(p \<mapsto> x) ++ n = m ++ ([p \<mapsto> x] ++ n)"
  by (rule ext) (simp add: map_add_def split: option.splits)

lemma apply_writes_map_add:
  "apply_writes fs ws = fs ++ map_of (rev (map (\<lambda>(p, v). (p, Video v)) ws))"
proof (induction ws arbitrary: fs)
  case Nil
  then show ?case by (simp add: apply_writes_Nil)
next
  case (Cons w ws)
  obtain p v where w: "w = (p, v)"
    by (cases w)
  let ?m = "map_of (rev (map (\<lambda>(p, v). (p, Video v)) ws))"
  have "apply_writes fs (w # ws) = apply_writes (fs(p \<mapsto> Video v)) ws"
    by (simp only: w apply_writes_Cons)
  also have "\<dots> = fs(p \<mapsto> Video v) ++ ?m"
    by (rule Cons.IH)
  also have "\<dots> = fs ++ ([p \<mapsto> Video v] ++ ?m)"
    by (rule map_add_upd_left)
  also have "[p \<mapsto> Video v] ++ ?m = map_of (rev (map (\<lambda>(p, v). (p, Video v)) (w # ws)))"
    by (simp add: w)
  finally show ?case .
qed

lemma apply_writes_twice: "apply_writes (apply_writes fs ws) ws = apply_writes fs ws"
  by (simp add: apply_writes_map_add map_add_def fun_eq_iff split: option.splits)

lemma apply_writes_distinct:
  assumes "distinct (map fst ws)" and "(p, v) \<in> set ws"
  shows "apply_writes fs ws p = Some (Video v)"
proof -
  let ?xs = "rev (map (\<lambda>(p, v). (p, Video v)) ws)"
  have eq: "map fst ?xs = rev (map fst ws)"
    by (simp add: rev_map comp_def case_prod_unfold)
  have "distinct (map fst ?xs)"
    unfolding eq using assms(1) by simp
  moreover from assms(2) have "(p, Video v) \<in> set ?xs"
    by force
  ultimately have "map_of ?xs p = Some (Video v)"
    by (rule map_of_is_SomeI)
  then have "(fs ++ map_of ?xs) p = Some (Video v)"
    by (rule map_add_find_right)
  then show ?thesis
    by (simp only: apply_writes_map_add)
qed

section \<open>\<^verbatim>\<open>split_video\<close> on the file system\<close>

lemma py_int_pos_floor: "0 < py_int x \<Longrightarrow> py_int x = \<lfloor>x\<rfloor>"
  by (auto simp: py_int_def split: if_splits)

lemma clip_frames_of_Inr:
  "clip_frames_of fps d = Inr cf \<longleftrightarrow> (\<exists>p. float_mul fps d = Some p \<and> cf = py_int p)"
  by (auto simp: clip_frames_of_def split: option.splits)

lemma split_clips_Inr:
  "split_clips c od vn d = Some (Inr st) \<longleftrightarrow>
     (\<exists>cf. clip_frames_of (v_fps (cap_video c)) d = Inr cf \<and>
           outer_loop od vn cf (py_int (v_frame_count (cap_video c))) (init_state c) = Some st)"
  by (auto simp: split_clips_def Let_def split: sum.splits)

lemma split_clips_None:
  "split_clips c od vn d = None \<longleftrightarrow>
     (\<exists>cf. clip_frames_of (v_fps (cap_video c)) d = Inr cf \<and>
           outer_loop od vn cf (py_int (v_frame_count (cap_video c))) (init_state c) = None)"
  by (auto simp: split_clips_def Let_def split: sum.splits)

lemma split_clips_stuck:
  assumes "clip_frames_of (v_fps (cap_video c)) d = Inr cf"
    and "0 < py_int (v_frame_count (cap_video c))"
    and "cf \<le> 0 \<or> cap_rest c = []"
  shows "split_clips c od vn d = None"
  unfolding split_clips_None
  using assms by (auto simp: stuck_def init_state_sel intro!: stuck_diverges)

lemma split_clips_short_stream:
  assumes "clip_frames_of (v_fps (cap_video c)) d = Inr cf"
    and "int (length (cap_rest c)) < py_int (v_frame_count (cap_video c))"
  shows "split_clips c od vn d = None"
  unfolding split_clips_None
  using assms by (auto simp: init_state_sel intro!: short_stream_diverges)

text \<open>\<open>split_clips\<close> is what \<^verbatim>\<open>split_video\<close> does once the capture is open.\<close>

lemma split_video_opened:
  assumes "VideoCapture fs file_path = Some c"
  shows "split_video fs file_path out_dir clip_duration =
     map_option
       (map_sum id
          (\<lambda>st. (apply_writes fs (written st),
                 [Processing (fst (splitext (basename file_path)))
                    (py_int (v_frame_count (cap_video c))) (v_fps (cap_video c)),
                  Done (fst (splitext (basename file_path))) (clip_idx st)])))
       (split_clips c out_dir (fst (splitext (basename file_path))) clip_duration)"
  using assms by (simp add: split_video_def Let_def split: option.splits sum.splits)

lemma VideoCapture_rest: "VideoCapture fs p = Some c \<Longrightarrow> cap_rest c = v_frames (cap_video c)"
  by (auto simp: VideoCapture_def split: option.splits entry.splits)

text \<open>
  The file system and the lines of a call of \<^verbatim>\<open>split_video\<close> that opens its video and
  returns.
\<close>

lemma split_video_returns:
  assumes cap: "VideoCapture fs file_path = Some c"
    and ret: "split_video fs file_path out_dir clip_duration = Some (Inr (fs', out))"
  defines "vn \<equiv> fst (splitext (basename file_path))"
    and "n \<equiv> nat (py_int (v_frame_count (cap_video c)))"
    and "frames \<equiv> v_frames (cap_video c)"
  shows "\<exists>p. float_mul (v_fps (cap_video c)) clip_duration = Some p
      \<and> (n = 0 \<or> 0 < py_int p)
      \<and> n \<le> length frames
      \<and> out = [Processing vn (py_int (v_frame_count (cap_video c))) (v_fps (cap_video c)),
                Done vn (clip_count n (nat (py_int p)))]
      \<and> (\<forall>k<clip_count n (nat (py_int p)).
            fs' (clip_path out_dir vn k) =
              Some (Video (clip_file (cap_video c) (clip_slice frames n (nat (py_int p)) k))))
      \<and> (\<forall>q. (\<forall>k<clip_count n (nat (py_int p)). q \<noteq> clip_path out_dir vn k) \<longrightarrow> fs' q = fs q)"
proof -
  from ret obtain st where st: "split_clips c out_dir vn clip_duration = Some (Inr st)"
    and fs': "fs' = apply_writes fs (written st)"
    and out: "out = [Processing vn (py_int (v_frame_count (cap_video c))) (v_fps (cap_video c)),
                     Done vn (clip_idx st)]"
    using cap unfolding split_video_def Let_def vn_def by (auto split: option.splits sum.splits)
  from st obtain p where p: "float_mul (v_fps (cap_video c)) clip_duration = Some p"
    and run: "outer_loop out_dir vn (py_int p) (py_int (v_frame_count (cap_video c))) (init_state c) = Some st"
    by (auto simp: split_clips_Inr clip_frames_of_Inr)
  let ?len = "nat (py_int p)"
  let ?cnt = "clip_count n ?len"
  let ?clip = "\<lambda>k. (clip_path out_dir vn k, clip_file (cap_video c) (clip_slice frames n ?len k))"
  from outer_loop_result[OF run] VideoCapture_rest[OF cap]
  have pos: "n = 0 \<or> 0 < py_int p" and enough: "n \<le> length frames"
    and idx: "clip_idx st = ?cnt" and written: "written st = map ?clip [0..<?cnt]"
    by (simp_all add: n_def frames_def clip_path_def)
  have vn: "sep \<notin> set vn"
    unfolding vn_def by (rule base_name_no_sep)
  have dist: "distinct (map fst (written st))"
    unfolding written using vn by (simp add: comp_def distinct_map inj_on_def clip_path_inject)
  have clips: "fs' (clip_path out_dir vn k) =
      Some (Video (clip_file (cap_video c) (clip_slice frames n ?len k)))" if "k < ?cnt" for k
  proof -
    from that have "?clip k \<in> set (written st)"
      unfolding written by simp
    from apply_writes_distinct[OF dist this] show ?thesis
      by (simp add: fs')
  qed
  have others: "fs' q = fs q" if "\<forall>k<?cnt. q \<noteq> clip_path out_dir vn k" for q
  proof -
    from that have "q \<notin> fst ` set (written st)"
      unfolding written by auto
    then show ?thesis
      by (simp add: fs' apply_writes_other)
  qed
  from p pos enough out idx clips others show ?thesis
    by blast
qed

subsection \<open>Clips as slices of the frame stream\<close>

lemma clip_count_bounds:
  assumes "0 < n" and "0 < len"
  shows "n \<le> clip_count n len * len" and "(clip_count n len - 1) * len < n"
proof -
  define m where "m = n + len - 1"
  define q where "q = m div len"
  have "q * len + m mod len = m" "m mod len < len"
    using assms(2) by (simp_all add: q_def)
  then have lo: "q * len \<le> m" and hi: "m < q * len + len"
    by linarith+
  from assms have cnt: "clip_count n len = q"
    by (simp add: clip_count_def q_def m_def)
  from hi assms show "n \<le> clip_count n len * len"
    unfolding cnt m_def by linarith
  have "0 < q"
    using assms by (simp add: q_def m_def div_greater_zero_iff)
  then have "(q - 1) * len + len = q * len"
    by (cases q) simp_all
  with lo assms show "(clip_count n len - 1) * len < n"
    unfolding cnt m_def by linarith
qed

lemma concat_takes: "concat (map (\<lambda>k. take len (drop (k * len) xs)) [0..<j]) = take (j * len) xs"
proof (induction j)
  case 0
  then show ?case by simp
next
  case (Suc j)
  have "take (j * len) xs @ take len (drop (j * len) xs) = take (j * len + len) xs"
    by (simp add: take_add)
  with Suc show ?case
    by (simp add: add.commute)
qed

lemma concat_clip_slices:
  assumes "n = 0 \<or> 0 < len"
  shows "concat (map (clip_slice frames n len) [0..<clip_count n len]) = take n frames"
proof (cases "n = 0")
  case True
  then show ?thesis
    by (simp add: clip_count_def)
next
  case False
  with assms clip_count_bounds(1)[of n len] have "n \<le> clip_count n len * len"
    by simp
  then have "take (clip_count n len * len) (take n frames) = take n frames"
    by simp
  with concat_takes[of len "take n frames" "clip_count n len"] show ?thesis
    by (simp add: clip_slice_def[abs_def])
qed

lemma sum_clip_slices:
  assumes "n = 0 \<or> 0 < len" and "n \<le> length frames"
  shows "sum_list (map (length \<circ> clip_slice frames n len) [0..<clip_count n len]) = n"
proof -
  have "sum_list (map (length \<circ> clip_slice frames n len) [0..<clip_count n len]) =
      length (concat (map (clip_slice frames n len) [0..<clip_count n len]))"
    by (simp add: length_concat comp_def)
  with assms show ?thesis
    by (simp add: concat_clip_slices)
qed

lemma full_clip_slice:
  assumes "Suc k < clip_count n len" and "0 < len" and "n \<le> length frames"
  shows "length (clip_slice frames n len k) = len"
proof -
  from assms(1) have n: "0 < n"
    by (cases "n = 0") (simp_all add: clip_count_def)
  from assms(1) have "Suc k * len \<le> (clip_count n len - 1) * len"
    by (intro mult_le_mono1) simp
  with clip_count_bounds(2)[OF n assms(2)] have "Suc k * len < n"
    by simp
  then have "len \<le> n - k * len"
    by simp
  with assms(3) show ?thesis
    by (simp add: clip_slice_budget)
qed

subsection \<open>Sample runs\<close>

text \<open>
  The runs recorded in the notebook: 307 frames at 24 frames per second are cut
  into clips of 120, 120 and 67 frames, and 443 frames at 23.976 frames per second
  into clips of 119, 119, 119 and 86 frames.
\<close>

lemma recorded_run_307:
  "map_option (map_sum id clip_sizes)
     (split_clips \<lparr>cap_video = \<lparr>v_fps = 24, v_frame_count = 307, v_width = 1920, v_height = 1080,
                               v_frames = replicate 307 (0::nat)\<rparr>,
                   cap_rest = replicate 307 0\<rparr> OUTPUT_DIR ''v'' CLIP_DURATION) =
     Some (Inr [120, 120, 67])"
  by code_simp

lemma recorded_run_443:
  "map_option (map_sum id clip_sizes)
     (split_clips \<lparr>cap_video = \<lparr>v_fps = 24000 / 1001, v_frame_count = 443, v_width = 1920,
                               v_height = 1080, v_frames = replicate 443 (0::nat)\<rparr>,
                   cap_rest = replicate 443 0\<rparr> OUTPUT_DIR ''v'' CLIP_DURATION) =
     Some (Inr [119, 119, 119, 86])"
  by code_simp

text \<open>
  Float products that are not the exact products: \<^verbatim>\<open>int(14.6 * 5)\<close> is 73 and
  \<^verbatim>\<open>int(100.0 * 0.29)\<close> is 28 in Python, where the exact products of the doubles
  lie just below 73 and just below 29.
\<close>

lemma float_products:
  "float_round (146 / 10) = 8219069319951155 / 562949953421312"
  "8219069319951155 / 562949953421312 * (5::rat) < 73"
  "clip_frames_of (146 / 10) 5 = Inr 73"
  "clip_frames_of 100 (29 / 100) = Inr 28"
  "clip_frames_of (252 / 10) 5 = Inr 126"
  by code_simp+

text \<open>
  The five-frame video with two-second clips.
\<close>

lemma demo_split:
  "split_video demo_fs ''video_data/converted_videos/v.mp4'' OUTPUT_DIR 2 =
     Some (Inr (apply_writes demo_fs demo_clips, [Processing ''v'' 5 1, Done ''v'' 3]))"
proof -
  have name: "fst (splitext (basename ''video_data/converted_videos/v.mp4'')) = ''v''"
    by code_simp
  have cap: "VideoCapture demo_fs ''video_data/converted_videos/v.mp4'' = Some demo_cap"
    by (simp add: VideoCapture_def demo_fs_def demo_cap_def)
  have run: "split_clips demo_cap OUTPUT_DIR ''v'' 2 = Some (Inr demo_final)"
    by code_simp
  have meta: "py_int (v_frame_count (cap_video demo_cap)) = 5" "v_fps (cap_video demo_cap) = 1"
    "clip_idx demo_final = 3" "written demo_final = demo_clips"
    by (simp_all add: demo_cap_def demo_video_def demo_final_def py_int_def)
  show ?thesis
    by (simp add: split_video_def Let_def name cap run meta)
qed

section \<open>Segmentation claims\<close>

text \<open>
  C1, as amended.  The clip length that \<^verbatim>\<open>split_video\<close> cuts with is
  \<^verbatim>\<open>int(fps * clip_duration)\<close>: the product of the two numbers as Python floats,
  truncated, not rounded.  When a call of \<^verbatim>\<open>split_video\<close> that opened its video
  returns, the product \<open>p\<close> was finite, and every clip file but the last holds
  exactly \<^verbatim>\<open>int(p)\<close> frames, which is the floor of \<open>p\<close>.
\<close>

theorem non_final_clips_hold_truncated_float_product:
  assumes "VideoCapture fs file_path = Some c"
    and "split_video fs file_path out_dir clip_duration = Some (Inr (fs', out))"
  defines "vn \<equiv> fst (splitext (basename file_path))"
    and "n \<equiv> nat (py_int (v_frame_count (cap_video c)))"
  shows "\<exists>p. float_mul (v_fps (cap_video c)) clip_duration = Some p
      \<and> clip_frames_of (v_fps (cap_video c)) clip_duration = Inr (py_int p)
      \<and> out = [Processing vn (py_int (v_frame_count (cap_video c))) (v_fps (cap_video c)),
                Done vn (clip_count n (nat (py_int p)))]
      \<and> (\<forall>k. Suc k < clip_count n (nat (py_int p)) \<longrightarrow>
            (\<exists>v. fs' (clip_path out_dir vn k) = Some (Video v)
               \<and> int (length (v_frames v)) = py_int p
               \<and> int (length (v_frames v)) = \<lfloor>p\<rfloor>))"
proof -
  let ?frames = "v_frames (cap_video c)"
  from split_video_returns[OF assms(1,2)] obtain p
    where p: "float_mul (v_fps (cap_video c)) clip_duration = Some p"
      and pos: "n = 0 \<or> 0 < py_int p"
      and enough: "n \<le> length ?frames"
      and out: "out = [Processing vn (py_int (v_frame_count (cap_video c))) (v_fps (cap_video c)),
                Done vn (clip_count n (nat (py_int p)))]"
      and clips: "\<forall>k<clip_count n (nat (py_int p)).
            fs' (clip_path out_dir vn k) =
              Some (Video (clip_file (cap_video c) (clip_slice ?frames n (nat (py_int p)) k)))"
    unfolding vn_def n_def by blast
  have full: "\<exists>v. fs' (clip_path out_dir vn k) = Some (Video v)
               \<and> int (length (v_frames v)) = py_int p
               \<and> int (length (v_frames v)) = \<lfloor>p\<rfloor>"
    if k: "Suc k < clip_count n (nat (py_int p))" for k
  proof -
    from k have "n \<noteq> 0"
      by (cases "n = 0") (simp_all add: clip_count_def)
    with pos have len: "0 < py_int p"
      by simp
    then have "length (clip_slice ?frames n (nat (py_int p)) k) = nat (py_int p)"
      using k enough by (intro full_clip_slice) simp_all
    with len have "int (length (clip_slice ?frames n (nat (py_int p)) k)) = py_int p"
      by simp
    moreover from k clips have "fs' (clip_path out_dir vn k) =
        Some (Video (clip_file (cap_video c) (clip_slice ?frames n (nat (py_int p)) k)))"
      by simp
    ultimately show ?thesis
      using py_int_pos_floor[OF len] by (simp add: clip_file_def)
  qed
  from p have "clip_frames_of (v_fps (cap_video c)) clip_duration = Inr (py_int p)"
    by (simp add: clip_frames_of_def)
  with p out full show ?thesis
    by blast
qed

text \<open>
  The amended C1 on the five-frame video with two-second clips: the call
  returns, the clip length is two, and its two non-final clip files hold two
  frames each.
\<close>

theorem non_final_clips_hold_truncated_float_product_witness:
  "VideoCapture demo_fs ''video_data/converted_videos/v.mp4'' = Some demo_cap
   \<and> split_video demo_fs ''video_data/converted_videos/v.mp4'' OUTPUT_DIR 2 =
       Some (Inr (apply_writes demo_fs demo_clips, [Processing ''v'' 5 1, Done ''v'' 3]))
   \<and> (\<exists>p. float_mul (v_fps (cap_video demo_cap)) 2 = Some p
      \<and> clip_frames_of (v_fps (cap_video demo_cap)) 2 = Inr (py_int p)
      \<and> [Processing ''v'' 5 1, Done ''v'' 3] =
          [Processing (fst (splitext (basename ''video_data/converted_videos/v.mp4'')))
             (py_int (v_frame_count (cap_video demo_cap))) (v_fps (cap_video demo_cap)),
           Done (fst (splitext (basename ''video_data/converted_videos/v.mp4'')))
             (clip_count (nat (py_int (v_frame_count (cap_video demo_cap)))) (nat (py_int p)))]
      \<and> (\<forall>k. Suc k < clip_count (nat (py_int (v_frame_count (cap_video demo_cap)))) (nat (py_int p)) \<longrightarrow>
            (\<exists>v. apply_writes demo_fs demo_clips
                    (clip_path OUTPUT_DIR (fst (splitext (basename ''video_data/converted_videos/v.mp4''))) k) =
                  Some (Video v)
               \<and> int (length (v_frames v)) = py_int p
               \<and> int (length (v_frames v)) = \<lfloor>p\<rfloor>)))
   \<and> clip_frames_of (v_fps (cap_video demo_cap)) 2 = Inr 2
   \<and> clip_count 5 2 = 3"
proof -
  have cap: "VideoCapture demo_fs ''video_data/converted_videos/v.mp4'' = Some demo_cap"
    by (simp add: VideoCapture_def demo_fs_def demo_cap_def)
  have evals: "clip_frames_of (v_fps (cap_video demo_cap)) 2 = Inr 2" "clip_count 5 2 = 3"
    by code_simp+
  from non_final_clips_hold_truncated_float_product[OF cap demo_split] cap demo_split evals
  show ?thesis
    by (intro conjI) assumption+
qed

text \<open>
  C1 as the specification words it fails.  At 23.75 frames per second and five
  seconds the code cuts with 118 frames where rounding gives 119; at 1.75 frames
  per second and one second a three-frame video is cut into three clip files of
  one frame where rounding gives two.
\<close>

theorem clip_budget_is_not_rounded:
  "clip_frames_of (95 / 4) 5 = Inr 118
   \<and> spec_clip_frame_count (95 / 4) 5 = 119
   \<and> map_option (map_sum id (snapshot [clip_path OUTPUT_DIR ''s'' 0, clip_path OUTPUT_DIR ''s'' 1,
                                       clip_path OUTPUT_DIR ''s'' 2, clip_path OUTPUT_DIR ''s'' 3]))
       (split_video slow_fs ''video_data/converted_videos/s.mp4'' OUTPUT_DIR 1) =
       Some (Inr ([Some (Video (clip_file slow_video [10])), Some (Video (clip_file slow_video [11])),
                   Some (Video (clip_file slow_video [12])), None],
                  [Processing ''s'' 3 (7 / 4), Done ''s'' 3]))
   \<and> spec_clip_frame_count (v_fps slow_video) 1 = 2"
  by code_simp

text \<open>
  C2, evaluated on the code.  A video that opens, reports a frame rate of zero
  and a frame count of one makes \<^verbatim>\<open>split_video\<close> loop for ever: the clip length is
  zero, no frame is read and \<open>frame_idx\<close> stays below \<open>total_frames\<close>.  The driver
  therefore never reaches the next video.
\<close>

theorem zero_frame_rate_never_returns:
  "split_video ([''video_data/converted_videos/v.mp4'' \<mapsto> Video zero_fps_video] :: (nat, 'e) fs)
     ''video_data/converted_videos/v.mp4'' OUTPUT_DIR CLIP_DURATION = None
   \<and> driver run_ffmpeg ([''video_data/converted_videos/v.mp4'' \<mapsto> Video zero_fps_video] :: (nat, 'e) fs)
       [''v.mp4'', ''w.mp4''] = None"
proof -
  let ?fs = "[''video_data/converted_videos/v.mp4'' \<mapsto> Video zero_fps_video] :: (nat, 'e) fs"
  let ?c = "\<lparr>cap_video = zero_fps_video, cap_rest = v_frames zero_fps_video\<rparr>"
  have cap: "VideoCapture ?fs ''video_data/converted_videos/v.mp4'' = Some ?c"
    by (simp add: VideoCapture_def)
  have frames: "clip_frames_of (v_fps (cap_video ?c)) CLIP_DURATION = Inr 0"
    by code_simp
  have "split_clips ?c out_dir video_name CLIP_DURATION = None" for out_dir video_name
    by (rule split_clips_stuck[OF frames]) (simp_all add: zero_fps_video_def py_int_def)
  then have split: "split_video ?fs ''video_data/converted_videos/v.mp4'' OUTPUT_DIR CLIP_DURATION = None"
    by (simp add: split_video_def Let_def cap)
  have files: "filter is_video_file [''v.mp4'', ''w.mp4''] = [''v.mp4'', ''w.mp4'']"
    by code_simp
  have out: "output_path TEMP_DIR (path_join INPUT_DIR ''v.mp4'') = ''video_data/converted_videos/v.mp4''"
    by code_simp
  have "convert_to_mp4 run_ffmpeg ?fs (path_join INPUT_DIR ''v.mp4'') TEMP_DIR =
      (?fs, Some ''video_data/converted_videos/v.mp4'', [])"
    by (simp add: convert_to_mp4_def out)
  with split have "driver_loop run_ffmpeg ?fs [''v.mp4'', ''w.mp4''] = None"
    by simp
  then have "driver run_ffmpeg ?fs [''v.mp4'', ''w.mp4''] = None"
    by (simp only: driver_def files)
  with split show ?thesis
    by simp
qed

text \<open>
  C3, evaluated on the code.  A video that reports two frames and delivers one:
  the clip length is 120, the first pass of the outer loop writes a clip of one
  frame, the second pass releases a clip into which no frame was written, and
  the loop never ends.
\<close>

theorem short_stream_emits_empty_clips:
  "clip_frames_of (v_fps (cap_video short_cap)) CLIP_DURATION = Inr 120
   \<and> clip_sizes
     (emit_clip OUTPUT_DIR ''v'' 120 (py_int (v_frame_count (cap_video short_cap)))
        (emit_clip OUTPUT_DIR ''v'' 120 (py_int (v_frame_count (cap_video short_cap)))
           (init_state short_cap))) = [1, 0]
   \<and> split_clips short_cap OUTPUT_DIR ''v'' CLIP_DURATION = None"
proof -
  have frames: "clip_frames_of (v_fps (cap_video short_cap)) CLIP_DURATION = Inr 120"
    by code_simp
  have "split_clips short_cap OUTPUT_DIR ''v'' CLIP_DURATION = None"
    by (rule split_clips_short_stream[OF frames]) (simp add: short_cap_def short_video_def py_int_def)
  moreover have "clip_sizes
     (emit_clip OUTPUT_DIR ''v'' 120 (py_int (v_frame_count (cap_video short_cap)))
        (emit_clip OUTPUT_DIR ''v'' 120 (py_int (v_frame_count (cap_video short_cap)))
           (init_state short_cap))) = [1, 0]"
    by code_simp
  ultimately show ?thesis
    using frames by simp
qed

text \<open>
  C4, as amended.  When a call of \<^verbatim>\<open>split_video\<close> that opened its video returns,
  the clip files partition the first \<open>n\<close> frames of the video, \<open>n\<close> being the frame
  count the container reports, or zero when that is negative: the video holds
  at least \<open>n\<close> frames, clip \<open>k\<close> holds the frames from offset \<open>k * len\<close> up to
  \<open>(k + 1) * len\<close> or \<open>n\<close>, the clips laid end to end are the first \<open>n\<close> frames,
  their sizes sum to \<open>n\<close>, they are the files named by the indices
  \<open>0, 1, \<dots>\<close> below the printed clip count, and no other path of the file system
  has changed.
\<close>

theorem clips_partition_reported_frames:
  assumes "VideoCapture fs file_path = Some c"
    and "split_video fs file_path out_dir clip_duration = Some (Inr (fs', out))"
  defines "vn \<equiv> fst (splitext (basename file_path))"
    and "n \<equiv> nat (py_int (v_frame_count (cap_video c)))"
    and "frames \<equiv> v_frames (cap_video c)"
  shows "\<exists>p. float_mul (v_fps (cap_video c)) clip_duration = Some p
      \<and> n \<le> length frames
      \<and> out = [Processing vn (py_int (v_frame_count (cap_video c))) (v_fps (cap_video c)),
                Done vn (clip_count n (nat (py_int p)))]
      \<and> (\<forall>k<clip_count n (nat (py_int p)).
            fs' (clip_path out_dir vn k) =
              Some (Video (clip_file (cap_video c) (clip_slice frames n (nat (py_int p)) k))))
      \<and> (\<forall>q. (\<forall>k<clip_count n (nat (py_int p)). q \<noteq> clip_path out_dir vn k) \<longrightarrow> fs' q = fs q)
      \<and> concat (map (clip_slice frames n (nat (py_int p))) [0..<clip_count n (nat (py_int p))]) =
          take n frames
      \<and> sum_list (map (length \<circ> clip_slice frames n (nat (py_int p)))
            [0..<clip_count n (nat (py_int p))]) = n"
proof -
  from split_video_returns[OF assms(1,2)] obtain p
    where p: "float_mul (v_fps (cap_video c)) clip_duration = Some p"
      and pos: "n = 0 \<or> 0 < py_int p"
      and enough: "n \<le> length frames"
      and out: "out = [Processing vn (py_int (v_frame_count (cap_video c))) (v_fps (cap_video c)),
                Done vn (clip_count n (nat (py_int p)))]"
      and clips: "\<forall>k<clip_count n (nat (py_int p)).
            fs' (clip_path out_dir vn k) =
              Some (Video (clip_file (cap_video c) (clip_slice frames n (nat (py_int p)) k)))"
      and others: "\<forall>q. (\<forall>k<clip_count n (nat (py_int p)). q \<noteq> clip_path out_dir vn k) \<longrightarrow> fs' q = fs q"
    unfolding vn_def n_def frames_def by blast
  from pos have len: "n = 0 \<or> 0 < nat (py_int p)"
    by auto
  from p enough out clips others concat_clip_slices[OF len, of frames]
    sum_clip_slices[OF len enough]
  show ?thesis
    by blast
qed

text \<open>
  The amended C4 on the five-frame video with two-second clips: three clips,
  holding the frames 10 and 11, 12 and 13, and 14.
\<close>

theorem clips_partition_reported_frames_witness:
  "VideoCapture demo_fs ''video_data/converted_videos/v.mp4'' = Some demo_cap
   \<and> split_video demo_fs ''video_data/converted_videos/v.mp4'' OUTPUT_DIR 2 =
       Some (Inr (apply_writes demo_fs demo_clips, [Processing ''v'' 5 1, Done ''v'' 3]))
   \<and> (\<exists>p. float_mul (v_fps (cap_video demo_cap)) 2 = Some p
      \<and> nat (py_int (v_frame_count (cap_video demo_cap))) \<le> length (v_frames (cap_video demo_cap))
      \<and> [Processing ''v'' 5 1, Done ''v'' 3] =
          [Processing (fst (splitext (basename ''video_data/converted_videos/v.mp4'')))
             (py_int (v_frame_count (cap_video demo_cap))) (v_fps (cap_video demo_cap)),
           Done (fst (splitext (basename ''video_data/converted_videos/v.mp4'')))
             (clip_count (nat (py_int (v_frame_count (cap_video demo_cap)))) (nat (py_int p)))]
      \<and> (\<forall>k<clip_count (nat (py_int (v_frame_count (cap_video demo_cap)))) (nat (py_int p)).
            apply_writes demo_fs demo_clips
              (clip_path OUTPUT_DIR (fst (splitext (basename ''video_data/converted_videos/v.mp4''))) k) =
              Some (Video (clip_file (cap_video demo_cap)
                (clip_slice (v_frames (cap_video demo_cap))
                   (nat (py_int (v_frame_count (cap_video demo_cap)))) (nat (py_int p)) k))))
      \<and> (\<forall>q. (\<forall>k<clip_count (nat (py_int (v_frame_count (cap_video demo_cap)))) (nat (py_int p)).
                 q \<noteq> clip_path OUTPUT_DIR (fst (splitext (basename ''video_data/converted_videos/v.mp4''))) k)
               \<longrightarrow> apply_writes demo_fs demo_clips q = demo_fs q)
      \<and> concat (map (clip_slice (v_frames (cap_video demo_cap))
                       (nat (py_int (v_frame_count (cap_video demo_cap)))) (nat (py_int p)))
                  [0..<clip_count (nat (py_int (v_frame_count (cap_video demo_cap)))) (nat (py_int p))]) =
          take (nat (py_int (v_frame_count (cap_video demo_cap)))) (v_frames (cap_video demo_cap))
      \<and> sum_list (map (length \<circ> clip_slice (v_frames (cap_video demo_cap))
                       (nat (py_int (v_frame_count (cap_video demo_cap)))) (nat (py_int p)))
                  [0..<clip_count (nat (py_int (v_frame_count (cap_video demo_cap)))) (nat (py_int p))]) =
          nat (py_int (v_frame_count (cap_video demo_cap))))
   \<and> float_mul (v_fps (cap_video demo_cap)) 2 = Some 2
   \<and> clip_count 5 2 = 3
   \<and> map (clip_slice (v_frames (cap_video demo_cap)) 5 2) [0, 1, 2] = [[10, 11], [12, 13], [14]]"
proof -
  have cap: "VideoCapture demo_fs ''video_data/converted_videos/v.mp4'' = Some demo_cap"
    by (simp add: VideoCapture_def demo_fs_def demo_cap_def)
  have evals: "float_mul (v_fps (cap_video demo_cap)) 2 = Some 2" "clip_count 5 2 = 3"
    "map (clip_slice (v_frames (cap_video demo_cap)) 5 2) [0, 1, 2] = [[10, 11], [12, 13], [14]]"
    by code_simp+
  from clips_partition_reported_frames[OF cap demo_split] cap demo_split evals show ?thesis
    by (intro conjI) assumption+
qed

text \<open>
  C4 as the specification words it fails.  A video that holds five frames and
  reports three is split into clips of two frames and one frame: the call
  returns and the frames 13 and 14 are in no clip.  A video that reports a frame
  count of \<open>-1\<close> is split into no clip at all, and the call returns.
\<close>

theorem frames_beyond_reported_count_are_dropped:
  "map_option (map_sum id (snapshot [clip_path OUTPUT_DIR ''u'' 0, clip_path OUTPUT_DIR ''u'' 1,
                                     clip_path OUTPUT_DIR ''u'' 2]))
     (split_video under_fs ''video_data/converted_videos/u.mp4'' OUTPUT_DIR 2) =
     Some (Inr ([Some (Video (clip_file under_video [10, 11])),
                 Some (Video (clip_file under_video [12])), None],
                [Processing ''u'' 3 1, Done ''u'' 2]))
   \<and> v_frames under_video = [10, 11, 12, 13, 14]
   \<and> map_option (map_sum id (snapshot [clip_path OUTPUT_DIR ''n'' 0]))
     (split_video negative_fs ''video_data/converted_videos/n.mp4'' OUTPUT_DIR 2) =
     Some (Inr ([None], [Processing ''n'' (- 1) 1, Done ''n'' 0]))
   \<and> v_frame_count negative_video = - 1"
  by code_simp

section \<open>Re-runs, naming and failed conversions\<close>

text \<open>
  A call of \<^verbatim>\<open>split_video\<close> on the file system that a returning call left: no clip
  path is the path of the source, and the same clips are written again.
\<close>

lemma split_video_rerun:
  assumes "split_video fs file_path out_dir clip_duration = Some (Inr (fs', out))"
  shows "split_video fs' file_path out_dir clip_duration = Some (Inr (fs', out))"
proof (cases "VideoCapture fs file_path")
  case None
  with assms show ?thesis
    by (auto simp: split_video_def Let_def)
next
  case (Some c)
  let ?vn = "fst (splitext (basename file_path))"
  from assms Some obtain st where st: "split_clips c out_dir ?vn clip_duration = Some (Inr st)"
    and fs': "fs' = apply_writes fs (written st)"
    and out: "out = [Processing ?vn (py_int (v_frame_count (cap_video c))) (v_fps (cap_video c)),
                     Done ?vn (clip_idx st)]"
    by (auto simp: split_video_def Let_def split: option.splits sum.splits)
  from st obtain cf where
    "outer_loop out_dir ?vn cf (py_int (v_frame_count (cap_video c))) (init_state c) = Some st"
    by (auto simp: split_clips_Inr)
  from outer_loop_result[OF this]
  have names: "map fst (written st) =
      map (\<lambda>k. path_join out_dir (clip_name ?vn k))
        [0..<clip_count (nat (py_int (v_frame_count (cap_video c)))) (nat cf)]"
    by (simp add: comp_def)
  have "file_path \<notin> fst ` set (written st)"
  proof
    assume "file_path \<in> fst ` set (written st)"
    then have "file_path \<in> set (map fst (written st))"
      by simp
    then obtain k where "file_path = path_join out_dir (clip_name ?vn k)"
      unfolding names by auto
    with clip_path_not_source[of out_dir file_path k] show False
      by simp
  qed
  then have "fs' file_path = fs file_path"
    by (simp add: fs' apply_writes_other)
  then have "VideoCapture fs' file_path = Some c"
    using Some by (simp add: VideoCapture_def)
  with st fs' out show ?thesis
    by (simp add: split_video_def Let_def apply_writes_twice)
qed

text \<open>
  C5.  Running a stage again on unchanged inputs with its outputs in place changes
  nothing.  \<^verbatim>\<open>convert_to_mp4\<close> returns the existing output path without starting
  FFmpeg and leaves the file system as it is.  \<^verbatim>\<open>split_video\<close>, run on the file
  system that a returning run of it left, returns again without an exception,
  with the same file system and the same printed lines: it writes the same clips
  under the same names, and no clip name is the name of the source.
\<close>

theorem rerun_is_noop:
  "(fs (output_path out_dir file_path) \<noteq> None \<longrightarrow>
      convert_to_mp4 run_ffmpeg fs file_path out_dir = (fs, Some (output_path out_dir file_path), []))
   \<and> (split_video fs2 mp4_path scene_dir clip_duration = Some (Inr (fs', out)) \<longrightarrow>
      split_video fs' mp4_path scene_dir clip_duration = Some (Inr (fs', out)))"
  using split_video_rerun[of fs2 mp4_path scene_dir clip_duration fs' out]
  by (simp add: convert_to_mp4_def)

text \<open>
  C5 on the sample file system: the converted video is in place, and the
  five-frame video is split twice.
\<close>

theorem rerun_is_noop_witness:
  "demo_fs (output_path TEMP_DIR ''video_data/raw_videos/v.mov'') \<noteq> None
   \<and> convert_to_mp4 failing_ffmpeg demo_fs ''video_data/raw_videos/v.mov'' TEMP_DIR =
       (demo_fs, Some (output_path TEMP_DIR ''video_data/raw_videos/v.mov''), [])
   \<and> split_video demo_fs ''video_data/converted_videos/v.mp4'' OUTPUT_DIR 2 =
       Some (Inr (apply_writes demo_fs demo_clips, [Processing ''v'' 5 1, Done ''v'' 3]))
   \<and> split_video (apply_writes demo_fs demo_clips) ''video_data/converted_videos/v.mp4'' OUTPUT_DIR 2 =
       Some (Inr (apply_writes demo_fs demo_clips, [Processing ''v'' 5 1, Done ''v'' 3]))"
proof -
  have out: "output_path TEMP_DIR ''video_data/raw_videos/v.mov'' = ''video_data/converted_videos/v.mp4''"
    by code_simp
  have ex: "demo_fs (output_path TEMP_DIR ''video_data/raw_videos/v.mov'') \<noteq> None"
    by (simp add: out demo_fs_def)
  from ex demo_split
    rerun_is_noop[where fs = demo_fs and out_dir = TEMP_DIR
      and file_path = "''video_data/raw_videos/v.mov''" and run_ffmpeg = failing_ffmpeg
      and ?fs2.0 = demo_fs and mp4_path = "''video_data/converted_videos/v.mp4''"
      and scene_dir = OUTPUT_DIR and clip_duration = 2
      and fs' = "apply_writes demo_fs demo_clips"
      and out = "[Processing ''v'' 5 1, Done ''v'' 3]"]
  show ?thesis
    by blast
qed

text \<open>
  C6, as amended.  The normalised output path is built from the base name of the
  source alone, the extension being stripped: two sources get the same output
  path exactly when their base names are equal, whatever their extensions.
\<close>

theorem output_name_determined_by_base_name:
  "output_path out_dir p = output_path out_dir q \<longleftrightarrow>
     fst (splitext (basename p)) = fst (splitext (basename q))"
proof -
  have "sep \<notin> set (fst (splitext (basename r)) @ ''.mp4'')" for r
    using base_name_no_sep[of r] by (simp add: sep_def)
  then show ?thesis
    by (simp add: output_path_def Let_def path_join_inject)
qed

text \<open>
  C6 as the specification words it fails: \<^verbatim>\<open>a.mov\<close> and \<^verbatim>\<open>a.avi\<close> are both accepted
  by the driver, differ only in their extensions, and are both normalised to
  \<^verbatim>\<open>video_data/converted_videos/a.mp4\<close>.
\<close>

theorem same_base_name_collides:
  "is_video_file ''a.mov'' \<and> is_video_file ''a.avi''
   \<and> splitext (basename (path_join INPUT_DIR ''a.mov'')) = (''a'', ''.mov'')
   \<and> splitext (basename (path_join INPUT_DIR ''a.avi'')) = (''a'', ''.avi'')
   \<and> output_path TEMP_DIR (path_join INPUT_DIR ''a.mov'') = ''video_data/converted_videos/a.mp4''
   \<and> output_path TEMP_DIR (path_join INPUT_DIR ''a.avi'') = ''video_data/converted_videos/a.mp4''"
  by code_simp

text \<open>
  C8.  When the output is not there yet and FFmpeg exits with a status other than
  zero, \<^verbatim>\<open>convert_to_mp4\<close> returns \<^verbatim>\<open>None\<close> after that single run of FFmpeg, printing
  the two lines of the failure.  The driver then does not split that video: it
  goes on with the remaining videos from the file system FFmpeg left, and the
  failed video adds nothing but those two lines.
\<close>

theorem failed_conversion_skips_video:
  "(fs (output_path out_dir file_path) = None \<longrightarrow>
    fst (run_ffmpeg fs file_path (output_path out_dir file_path)) \<noteq> 0 \<longrightarrow>
      convert_to_mp4 run_ffmpeg fs file_path out_dir =
        (snd (run_ffmpeg fs file_path (output_path out_dir file_path)), None,
         [Converting file_path, FFmpegFailed file_path]))
   \<and> (fs (output_path TEMP_DIR (path_join INPUT_DIR video_file)) = None \<longrightarrow>
      fst (run_ffmpeg fs (path_join INPUT_DIR video_file)
             (output_path TEMP_DIR (path_join INPUT_DIR video_file))) \<noteq> 0 \<longrightarrow>
      driver_loop run_ffmpeg fs (video_file # rest) =
        map_option
          (map_sum id
             (\<lambda>(fs', out). (fs', [Converting (path_join INPUT_DIR video_file),
                                   FFmpegFailed (path_join INPUT_DIR video_file)] @ out)))
          (driver_loop run_ffmpeg
             (snd (run_ffmpeg fs (path_join INPUT_DIR video_file)
                     (output_path TEMP_DIR (path_join INPUT_DIR video_file)))) rest))"
  by (auto simp: convert_to_mp4_def split: prod.splits option.splits sum.splits)

text \<open>
  C8 on an empty file system with the FFmpeg that always fails.
\<close>

theorem failed_conversion_skips_video_witness:
  "Map.empty (output_path TEMP_DIR (path_join INPUT_DIR ''v.mov'')) = None
   \<and> fst (failing_ffmpeg Map.empty (path_join INPUT_DIR ''v.mov'')
            (output_path TEMP_DIR (path_join INPUT_DIR ''v.mov''))) \<noteq> 0
   \<and> convert_to_mp4 failing_ffmpeg Map.empty (path_join INPUT_DIR ''v.mov'') TEMP_DIR =
       (Map.empty, None,
        [Converting (path_join INPUT_DIR ''v.mov''), FFmpegFailed (path_join INPUT_DIR ''v.mov'')])
   \<and> driver_loop failing_ffmpeg Map.empty [''v.mov''] =
       Some (Inr (Map.empty,
         [Converting (path_join INPUT_DIR ''v.mov''), FFmpegFailed (path_join INPUT_DIR ''v.mov'')]))"
proof -
  have a: "(Map.empty :: (nat, nat) fs) (output_path TEMP_DIR (path_join INPUT_DIR ''v.mov'')) = None"
    by simp
  have b: "fst (failing_ffmpeg Map.empty (path_join INPUT_DIR ''v.mov'')
            (output_path TEMP_DIR (path_join INPUT_DIR ''v.mov''))) \<noteq> 0"
    by (simp add: failing_ffmpeg_def)
  have c: "snd (failing_ffmpeg Map.empty i out) = Map.empty" for i out
    by (simp add: failing_ffmpeg_def)
  from a b
    failed_conversion_skips_video[of Map.empty TEMP_DIR "path_join INPUT_DIR ''v.mov''"
      failing_ffmpeg "''v.mov''" "[]"]
  show ?thesis
    by (simp add: c)
qed

section \<open>Key frames and embedding artifacts\<close>

subsection \<open>The middle frame\<close>

lemma middle_frame_index_floor: "middle_frame_index n = \<lfloor>rat_of_int n / 2\<rfloor>"
  using floor_divide_of_int_eq[of n 2, where ?'a = rat] by (simp add: middle_frame_index_def)

lemma extract_middle_frame_opened:
  assumes "VideoCapture fs video_path = Some c"
  shows "fst (extract_middle_frame fs video_path) =
     fst (cap_read (cap_set_pos c (middle_frame_index (py_int (v_frame_count (cap_video c))))))"
  using assms by (simp add: extract_middle_frame_def Let_def split: prod.splits option.splits)

lemma extract_middle_frame_cong:
  "fs' video_path = fs video_path \<Longrightarrow>
   extract_middle_frame fs' video_path = extract_middle_frame fs video_path"
  by (simp add: extract_middle_frame_def VideoCapture_def)

text \<open>
  C9.  For a clip that opens, the key frame extractor asks for the frame at index
  floor(frame count / 2): what it returns is what a read delivers after the
  capture was positioned there.  The result depends on nothing but the clip file,
  so two extractions from an unchanged clip ask for the same index and return the
  same result.
\<close>

theorem middle_frame_is_requested:
  "(VideoCapture fs video_path = Some c \<longrightarrow>
      middle_frame_index (py_int (v_frame_count (cap_video c))) =
        \<lfloor>rat_of_int (py_int (v_frame_count (cap_video c))) / 2\<rfloor>
      \<and> fst (extract_middle_frame fs video_path) =
        fst (cap_read (cap_set_pos c \<lfloor>rat_of_int (py_int (v_frame_count (cap_video c))) / 2\<rfloor>)))
   \<and> (fs' video_path = fs video_path \<longrightarrow>
        extract_middle_frame fs' video_path = extract_middle_frame fs video_path)"
  using extract_middle_frame_opened[of fs video_path c] extract_middle_frame_cong[of fs' video_path fs]
  by (simp add: middle_frame_index_floor)

text \<open>C9 on the five-frame video: index 2, the frame numbered 12.\<close>

theorem middle_frame_is_requested_witness:
  "VideoCapture demo_fs ''video_data/converted_videos/v.mp4'' = Some demo_cap
   \<and> middle_frame_index (py_int (v_frame_count (cap_video demo_cap))) = 2
   \<and> \<lfloor>rat_of_int (py_int (v_frame_count (cap_video demo_cap))) / 2\<rfloor> = 2
   \<and> fst (extract_middle_frame demo_fs ''video_data/converted_videos/v.mp4'') = Some 12
   \<and> fst (cap_read (cap_set_pos demo_cap 2)) = Some 12
   \<and> (demo_fs(''embeddings/v.npy'' \<mapsto> Array 0)) ''video_data/converted_videos/v.mp4'' =
       demo_fs ''video_data/converted_videos/v.mp4''
   \<and> extract_middle_frame (demo_fs(''embeddings/v.npy'' \<mapsto> Array 0)) ''video_data/converted_videos/v.mp4'' =
       extract_middle_frame demo_fs ''video_data/converted_videos/v.mp4''"
proof -
  have cap: "VideoCapture demo_fs ''video_data/converted_videos/v.mp4'' = Some demo_cap"
    by (simp add: VideoCapture_def demo_fs_def demo_cap_def)
  have same: "(demo_fs(''embeddings/v.npy'' \<mapsto> Array 0)) ''video_data/converted_videos/v.mp4'' =
       demo_fs ''video_data/converted_videos/v.mp4''"
    by simp
  have count: "py_int (v_frame_count (cap_video demo_cap)) = 5"
    by (simp add: demo_cap_def demo_video_def py_int_def)
  have fl: "\<lfloor>(5::rat) / 2\<rfloor> = 2"
    by (simp add: floor_eq_iff)
  have rd: "fst (cap_read (cap_set_pos demo_cap 2)) = Some 12"
    by (simp add: cap_read_def cap_set_pos_def demo_cap_def demo_video_def)
  from middle_frame_is_requested[of demo_fs "''video_data/converted_videos/v.mp4''" demo_cap
      "demo_fs(''embeddings/v.npy'' \<mapsto> Array 0)"] cap same
  show ?thesis
    by (simp add: count fl rd)
qed

subsection \<open>Artifact names\<close>







lemma path_join_suffix: "suffix b (path_join a b)"
  by (auto simp: path_join_def suffix_def)

lemma suffix_same_length: "suffix xs zs \<Longrightarrow> suffix ys zs \<Longrightarrow> length xs = length ys \<Longrightarrow> xs = ys"
  by (auto simp: suffix_def)

lemma lower_npy: "lower ''.npy'' = ''.npy''"
  by code_simp

lemma scene_file_not_npy:
  assumes "endswith (lower g) ''.mp4''"
  shows "\<not> suffix ''.npy'' (path_join d g)"
proof
  assume npy: "suffix ''.npy'' (path_join d g)"
  from assms have mp4: "suffix ''.mp4'' (lower g)"
    by (simp add: endswith_def)
  then have "length ''.mp4'' \<le> length (lower g)"
    by (rule suffix_length_le)
  then have len: "4 \<le> length g"
    by (simp add: lower_def)
  from suffix_same_cases[OF npy path_join_suffix[of g d]] have "suffix ''.npy'' g"
  proof
    assume "suffix g ''.npy''"
    then have "length g \<le> 4"
      using suffix_length_le by fastforce
    with len \<open>suffix g ''.npy''\<close> have "g = ''.npy''"
      by (intro suffix_same_length[of g "''.npy''" "''.npy''"]) simp_all
    then show ?thesis
      by simp
  qed
  then have "suffix (map lower_char ''.npy'') (map lower_char g)"
    by (rule map_mono_suffix)
  then have "suffix ''.npy'' (lower g)"
    using lower_npy by (simp add: lower_def)
  from suffix_same_length[OF this mp4] show False
    by simp
qed







subsection \<open>The scene loop\<close>

lemma npy_file_suffix: "suffix ''.npy'' (npy_file out)"
  by (simp add: npy_file_def endswith_def suffix_def)

lemma np_save_other: "\<not> suffix ''.npy'' p \<Longrightarrow> np_save fs out e p = fs p"
  using npy_file_suffix[of out] by (auto simp: np_save_def)

lemma key_frame_cong:
  "fs' (path_join SCENE_DIR f) = fs (path_join SCENE_DIR f) \<Longrightarrow> key_frame fs' f = key_frame fs f"
  unfolding key_frame_def by (rule arg_cong[where f = fst]) (rule extract_middle_frame_cong)

lemma generate_clip_embedding_fst:
  "fst (generate_clip_embedding encoder fs (path_join SCENE_DIR f)) = map_option encoder (key_frame fs f)"
  by (auto simp: generate_clip_embedding_def key_frame_def split: prod.splits option.splits)

lemma embedding_loop_Cons:
  "fst (embedding_loop encoder fs (f # rest)) =
     (case key_frame fs f of
        None \<Rightarrow> fst (embedding_loop encoder fs rest)
      | Some frame \<Rightarrow>
          fst (embedding_loop encoder
                 (np_save fs (path_join EMBEDDING_DIR (embedding_name f)) (encoder frame)) rest))"
proof (cases "generate_clip_embedding encoder fs (path_join SCENE_DIR f)")
  case (Pair e out)
  with generate_clip_embedding_fst[of encoder fs f] have e: "e = map_option encoder (key_frame fs f)"
    by simp
  show ?thesis
  proof (cases "key_frame fs f")
    case None
    with e Pair show ?thesis
      by (simp split: prod.splits)
  next
    case (Some frame)
    with e Pair show ?thesis
      by (simp split: prod.splits)
  qed
qed

text \<open>
  The loop reads every key frame as it was before the loop: the file system it
  leaves is the one obtained by saving, in order, the vector of each scene file
  whose key frame is readable.
\<close>

lemma embedding_loop_fold:
  assumes "\<forall>f\<in>set files. endswith (lower f) ''.mp4''"
    and "\<forall>f\<in>set files. acc (path_join SCENE_DIR f) = fs (path_join SCENE_DIR f)"
  shows "fst (embedding_loop encoder acc files) =
     foldl (\<lambda>m f. np_save m (path_join EMBEDDING_DIR (embedding_name f)) (encoder (the (key_frame fs f))))
       acc (filter (\<lambda>f. key_frame fs f \<noteq> None) files)"
  using assms
proof (induction files arbitrary: acc)
  case Nil
  then show ?case by simp
next
  case (Cons f rest)
  have mp4: "\<forall>g\<in>set rest. endswith (lower g) ''.mp4''"
    using Cons.prems(1) by simp
  have key: "key_frame acc f = key_frame fs f"
    using Cons.prems(2) by (intro key_frame_cong) simp
  show ?case
  proof (cases "key_frame fs f")
    case None
    moreover have "\<forall>g\<in>set rest. acc (path_join SCENE_DIR g) = fs (path_join SCENE_DIR g)"
      using Cons.prems(2) by simp
    ultimately show ?thesis
      using Cons.IH[OF mp4, of acc] key by (simp add: embedding_loop_Cons del: embedding_loop.simps)
  next
    case (Some frame)
    let ?acc = "np_save acc (path_join EMBEDDING_DIR (embedding_name f)) (encoder frame)"
    have "\<forall>g\<in>set rest. ?acc (path_join SCENE_DIR g) = fs (path_join SCENE_DIR g)"
    proof
      fix g assume g: "g \<in> set rest"
      with mp4 have "\<not> suffix ''.npy'' (path_join SCENE_DIR g)"
        by (intro scene_file_not_npy) simp
      then have "?acc (path_join SCENE_DIR g) = acc (path_join SCENE_DIR g)"
        by (rule np_save_other)
      with g Cons.prems(2) show "?acc (path_join SCENE_DIR g) = fs (path_join SCENE_DIR g)"
        by simp
    qed
    from Cons.IH[OF mp4 this] Some key show ?thesis
      by (simp add: embedding_loop_Cons del: embedding_loop.simps)
  qed
qed

lemma update_fold_map_add:
  "foldl (\<lambda>m f. m(key f \<mapsto> val f)) fs files =
     fs ++ map_of (rev (map (\<lambda>f. (key f, val f)) files))"
proof (induction files arbitrary: fs)
  case Nil
  then show ?case by simp
next
  case (Cons f files)
  let ?m = "map_of (rev (map (\<lambda>f. (key f, val f)) files))"
  have "foldl (\<lambda>m f. m(key f \<mapsto> val f)) fs (f # files) =
      foldl (\<lambda>m f. m(key f \<mapsto> val f)) (fs(key f \<mapsto> val f)) files"
    by simp
  also have "\<dots> = fs(key f \<mapsto> val f) ++ ?m"
    by (rule Cons.IH)
  also have "\<dots> = fs ++ ([key f \<mapsto> val f] ++ ?m)"
    by (rule map_add_upd_left)
  also have "[key f \<mapsto> val f] ++ ?m = map_of (rev (map (\<lambda>f. (key f, val f)) (f # files)))"
    by simp
  finally show ?case .
qed

lemma map_of_rev_last:
  "map_of (rev (map (\<lambda>f. (key f, val f)) xs)) q =
     (if filter (\<lambda>g. key g = q) xs = [] then None
      else Some (val (last (filter (\<lambda>g. key g = q) xs))))"
proof (induction xs rule: rev_induct)
  case Nil
  then show ?case by simp
next
  case (snoc x xs)
  then show ?case by (cases "key x = q") simp_all
qed

text \<open>The file system after the embedding loop, path by path.\<close>

lemma embedding_stage_lookup:
  "fst (embedding_stage encoder fs listing) q =
     (if filter (\<lambda>g. key_frame fs g \<noteq> None \<and> artifact_file g = q) (scene_files_of listing) = []
      then fs q
      else Some (Array (encoder (the (key_frame fs
             (last (filter (\<lambda>g. key_frame fs g \<noteq> None \<and> artifact_file g = q)
                      (scene_files_of listing))))))))"
proof -
  let ?files = "scene_files_of listing"
  let ?readable = "filter (\<lambda>f. key_frame fs f \<noteq> None) ?files"
  let ?val = "\<lambda>f. Array (encoder (the (key_frame fs f)))"
  let ?m = "map_of (rev (map (\<lambda>f. (artifact_file f, ?val f)) ?readable))"
  have mp4: "\<forall>f\<in>set ?files. endswith (lower f) ''.mp4''"
    by (simp add: scene_files_of_def)
  have same: "\<forall>f\<in>set ?files. fs (path_join SCENE_DIR f) = fs (path_join SCENE_DIR f)"
    by simp
  have "fst (embedding_stage encoder fs listing) =
      foldl (\<lambda>m f. np_save m (path_join EMBEDDING_DIR (embedding_name f)) (encoder (the (key_frame fs f))))
        fs ?readable"
    unfolding embedding_stage_def by (rule embedding_loop_fold[OF mp4 same])
  also have "\<dots> = fs ++ ?m"
    unfolding np_save_def artifact_file_def
    by (rule update_fold_map_add[where key = "\<lambda>f. npy_file (path_join EMBEDDING_DIR (embedding_name f))"
          and val = "\<lambda>f. Array (encoder (the (key_frame fs f)))"])
  finally have stage: "fst (embedding_stage encoder fs listing) q = (fs ++ ?m) q"
    by (rule arg_cong)
  have flt: "filter (\<lambda>g. artifact_file g = q) ?readable =
      filter (\<lambda>g. key_frame fs g \<noteq> None \<and> artifact_file g = q) ?files"
    unfolding filter_filter by (rule filter_cong) auto
  have m: "?m q =
      (if filter (\<lambda>g. artifact_file g = q) ?readable = [] then None
       else Some (?val (last (filter (\<lambda>g. artifact_file g = q) ?readable))))"
    by (rule map_of_rev_last)
  show ?thesis
    unfolding stage map_add_def m flt by (simp split: if_splits)
qed

lemma embedding_loop_append:
  "fst (embedding_loop encoder fs (xs @ ys)) =
     fst (embedding_loop encoder (fst (embedding_loop encoder fs xs)) ys)"
proof (induction xs arbitrary: fs)
  case Nil
  then show ?case by simp
next
  case (Cons x xs)
  show ?case
  proof (cases "key_frame fs x")
    case None
    then show ?thesis
      using Cons.IH[of fs] by (simp add: embedding_loop_Cons del: embedding_loop.simps)
  next
    case (Some frame)
    then show ?thesis
      using Cons.IH[of "np_save fs (path_join EMBEDDING_DIR (embedding_name x)) (encoder frame)"]
      by (simp add: embedding_loop_Cons del: embedding_loop.simps)
  qed
qed

lemma embedding_loop_single:
  "fst (embedding_loop encoder fs [f]) =
     (case key_frame fs f of
        None \<Rightarrow> fs
      | Some frame \<Rightarrow> fs(artifact_file f \<mapsto> Array (encoder frame)))"
  by (simp add: embedding_loop_Cons np_save_def artifact_file_def del: embedding_loop.simps(2)
      split: option.splits)

lemma embedding_loop_other:
  "\<not> suffix ''.npy'' p \<Longrightarrow> fst (embedding_loop encoder fs files) p = fs p"
proof (induction files arbitrary: fs)
  case Nil
  then show ?case by simp
next
  case (Cons f files)
  show ?case
  proof (cases "key_frame fs f")
    case None
    then show ?thesis
      using Cons.IH[OF Cons.prems, of fs] by (simp add: embedding_loop_Cons del: embedding_loop.simps)
  next
    case (Some frame)
    then show ?thesis
      using Cons.IH[OF Cons.prems, of "np_save fs (path_join EMBEDDING_DIR (embedding_name f)) (encoder frame)"]
        np_save_other[OF Cons.prems]
      by (simp add: embedding_loop_Cons del: embedding_loop.simps)
  qed
qed

text \<open>One pass of the scene loop, as a change of the file system.\<close>

lemma fs_before_Suc:
  assumes "i < length files" and "endswith (lower (files ! i)) ''.mp4''"
  shows "key_frame (fs_before encoder fs files i) (files ! i) = key_frame fs (files ! i)"
    and "fs_before encoder fs files (Suc i) =
      (case key_frame (fs_before encoder fs files i) (files ! i) of
         None \<Rightarrow> fs_before encoder fs files i
       | Some frame \<Rightarrow>
           (fs_before encoder fs files i)(artifact_file (files ! i) \<mapsto> Array (encoder frame)))"
proof -
  from assms(2) have "\<not> suffix ''.npy'' (path_join SCENE_DIR (files ! i))"
    by (rule scene_file_not_npy)
  then have "fs_before encoder fs files i (path_join SCENE_DIR (files ! i)) =
      fs (path_join SCENE_DIR (files ! i))"
    unfolding fs_before_def by (rule embedding_loop_other)
  then show "key_frame (fs_before encoder fs files i) (files ! i) = key_frame fs (files ! i)"
    by (rule key_frame_cong)
  from assms(1) have "take (Suc i) files = take i files @ [files ! i]"
    by (rule take_Suc_conv_app_nth)
  then show "fs_before encoder fs files (Suc i) =
      (case key_frame (fs_before encoder fs files i) (files ! i) of
         None \<Rightarrow> fs_before encoder fs files i
       | Some frame \<Rightarrow>
           (fs_before encoder fs files i)(artifact_file (files ! i) \<mapsto> Array (encoder frame)))"
    unfolding fs_before_def by (simp only: embedding_loop_append embedding_loop_single)
qed

text \<open>
  C7. The scene loop passes once over every scene file of the listing, in sorted
  order. In the pass for a scene file, \<^verbatim>\<open>extract_middle_frame\<close> reads the file as
  it was before the loop started. If it returns a frame, the pass writes one
  file, the artifact file of that scene file, holding the encoder's vector of
  that frame, and changes no other path. If it returns no frame, because the
  file does not open or because the frame cannot be read, the pass leaves the
  whole file system as it found it, and the loop goes on to the next scene file.
  After the last pass, a path that is the artifact file of a scene file with a
  readable key frame holds the vector of the last such scene file, and every
  other path holds what it held before the loop.
\<close>

theorem artifact_written_iff_keyframe_readable:
  "fs_before encoder fs (scene_files_of listing) 0 = fs
   \<and> (\<forall>i<length (scene_files_of listing).
        key_frame (fs_before encoder fs (scene_files_of listing) i) (scene_files_of listing ! i) =
          key_frame fs (scene_files_of listing ! i)
        \<and> fs_before encoder fs (scene_files_of listing) (Suc i) =
            (case key_frame (fs_before encoder fs (scene_files_of listing) i) (scene_files_of listing ! i) of
               None \<Rightarrow> fs_before encoder fs (scene_files_of listing) i
             | Some frame \<Rightarrow>
                 (fs_before encoder fs (scene_files_of listing) i)
                   (artifact_file (scene_files_of listing ! i) \<mapsto> Array (encoder frame))))
   \<and> fs_before encoder fs (scene_files_of listing) (length (scene_files_of listing)) =
        fst (embedding_stage encoder fs listing)
   \<and> (\<forall>q. fst (embedding_stage encoder fs listing) q =
        (if filter (\<lambda>g. key_frame fs g \<noteq> None \<and> artifact_file g = q) (scene_files_of listing) = []
         then fs q
         else Some (Array (encoder (the (key_frame fs
                (last (filter (\<lambda>g. key_frame fs g \<noteq> None \<and> artifact_file g = q)
                         (scene_files_of listing)))))))))"
proof (intro conjI allI impI)
  show "fs_before encoder fs (scene_files_of listing) 0 = fs"
    by (simp add: fs_before_def)
  show "fs_before encoder fs (scene_files_of listing) (length (scene_files_of listing)) =
      fst (embedding_stage encoder fs listing)"
    by (simp add: fs_before_def embedding_stage_def)
next
  fix i
  assume i: "i < length (scene_files_of listing)"
  then have "scene_files_of listing ! i \<in> set (scene_files_of listing)"
    by (rule nth_mem)
  then have mp4: "endswith (lower (scene_files_of listing ! i)) ''.mp4''"
    by (simp add: scene_files_of_def)
  from fs_before_Suc(1)[OF i mp4]
  show "key_frame (fs_before encoder fs (scene_files_of listing) i) (scene_files_of listing ! i) =
      key_frame fs (scene_files_of listing ! i)" .
  from fs_before_Suc(2)[OF i mp4]
  show "fs_before encoder fs (scene_files_of listing) (Suc i) =
      (case key_frame (fs_before encoder fs (scene_files_of listing) i) (scene_files_of listing ! i) of
         None \<Rightarrow> fs_before encoder fs (scene_files_of listing) i
       | Some frame \<Rightarrow>
           (fs_before encoder fs (scene_files_of listing) i)
             (artifact_file (scene_files_of listing ! i) \<mapsto> Array (encoder frame)))" .
next
  fix q
  show "fst (embedding_stage encoder fs listing) q =
      (if filter (\<lambda>g. key_frame fs g \<noteq> None \<and> artifact_file g = q) (scene_files_of listing) = []
       then fs q
       else Some (Array (encoder (the (key_frame fs
              (last (filter (\<lambda>g. key_frame fs g \<noteq> None \<and> artifact_file g = q)
                       (scene_files_of listing))))))))"
    by (rule embedding_stage_lookup)
qed

text \<open>
  C7 on the sample scene directory. The text file is not a scene file. The first
  and third scene files have a readable key frame, and their artifact files hold
  the vectors 111 and 113. The second does not open and the fourth has no frame:
  each of their passes leaves the file system as it was, and their artifact
  paths hold nothing.
\<close>

theorem artifact_written_iff_keyframe_readable_witness:
  "scene_files_of scene_listing =
     [''v_clip_000.mp4'', ''w_clip_000.mp4'', ''x_clip_000.mp4'', ''y_clip_000.mp4'']
   \<and> map (key_frame scene_fs) (scene_files_of scene_listing) = [Some 11, None, Some 13, None]
   \<and> fs_before demo_encoder scene_fs (scene_files_of scene_listing) 1 =
       scene_fs(''embeddings/v_clip_000.npy'' \<mapsto> Array 111)
   \<and> fs_before demo_encoder scene_fs (scene_files_of scene_listing) 2 =
       fs_before demo_encoder scene_fs (scene_files_of scene_listing) 1
   \<and> fs_before demo_encoder scene_fs (scene_files_of scene_listing) 3 =
       (fs_before demo_encoder scene_fs (scene_files_of scene_listing) 2)
         (''embeddings/x_clip_000.npy'' \<mapsto> Array 113)
   \<and> fs_before demo_encoder scene_fs (scene_files_of scene_listing) 4 =
       fs_before demo_encoder scene_fs (scene_files_of scene_listing) 3
   \<and> fst (embedding_stage demo_encoder scene_fs scene_listing) =
       scene_fs(''embeddings/v_clip_000.npy'' \<mapsto> Array 111, ''embeddings/x_clip_000.npy'' \<mapsto> Array 113)
   \<and> map (fst (embedding_stage demo_encoder scene_fs scene_listing))
        [''embeddings/v_clip_000.npy'', ''embeddings/w_clip_000.npy'',
         ''embeddings/x_clip_000.npy'', ''embeddings/y_clip_000.npy''] =
       [Some (Array 111), None, Some (Array 113), None]"
proof -
  let ?files = "scene_files_of scene_listing"
  let ?before = "fs_before demo_encoder scene_fs ?files"
  have files: "?files = [''v_clip_000.mp4'', ''w_clip_000.mp4'', ''x_clip_000.mp4'', ''y_clip_000.mp4'']"
    by code_simp
  have len: "length ?files = 4" and nth: "?files ! 0 = ''v_clip_000.mp4''" "?files ! 1 = ''w_clip_000.mp4''"
    "?files ! 2 = ''x_clip_000.mp4''" "?files ! 3 = ''y_clip_000.mp4''"
    by (simp_all add: files)
  have v: "key_frame scene_fs ''v_clip_000.mp4'' = Some 11"
    by code_simp
  have w: "key_frame scene_fs ''w_clip_000.mp4'' = None"
    by code_simp
  have x: "key_frame scene_fs ''x_clip_000.mp4'' = Some 13"
    by code_simp
  have y: "key_frame scene_fs ''y_clip_000.mp4'' = None"
    by code_simp
  have av: "artifact_file ''v_clip_000.mp4'' = ''embeddings/v_clip_000.npy''"
    by code_simp
  have ax: "artifact_file ''x_clip_000.mp4'' = ''embeddings/x_clip_000.npy''"
    by code_simp
  have enc: "demo_encoder 11 = 111" "demo_encoder 13 = 113"
    by (simp_all add: demo_encoder_def)
  have none: "scene_fs ''embeddings/w_clip_000.npy'' = None" "scene_fs ''embeddings/y_clip_000.npy'' = None"
    by (simp_all add: scene_fs_def)
  note c7 = artifact_written_iff_keyframe_readable[of demo_encoder scene_fs scene_listing]
  from c7 have b0: "?before 0 = scene_fs"
    by (rule conjunct1)
  from c7 have step: "\<And>i n. i < 4 \<Longrightarrow> n = Suc i \<Longrightarrow>
      key_frame (?before i) (?files ! i) = key_frame scene_fs (?files ! i)
      \<and> ?before n =
          (case key_frame (?before i) (?files ! i) of
             None \<Rightarrow> ?before i
           | Some frame \<Rightarrow> (?before i)(artifact_file (?files ! i) \<mapsto> Array (demo_encoder frame)))"
    unfolding len by blast
  from c7 have fin: "?before 4 = fst (embedding_stage demo_encoder scene_fs scene_listing)"
    unfolding len by blast
  have "key_frame (?before 0) (?files ! 0) = key_frame scene_fs (?files ! 0)
      \<and> ?before 1 =
          (case key_frame (?before 0) (?files ! 0) of
             None \<Rightarrow> ?before 0
           | Some frame \<Rightarrow> (?before 0)(artifact_file (?files ! 0) \<mapsto> Array (demo_encoder frame)))"
    by (rule step) simp_all
  then have b1: "?before 1 = scene_fs(''embeddings/v_clip_000.npy'' \<mapsto> Array 111)"
    unfolding nth v b0 by (simp add: av enc)
  have "key_frame (?before 1) (?files ! 1) = key_frame scene_fs (?files ! 1)
      \<and> ?before 2 =
          (case key_frame (?before 1) (?files ! 1) of
             None \<Rightarrow> ?before 1
           | Some frame \<Rightarrow> (?before 1)(artifact_file (?files ! 1) \<mapsto> Array (demo_encoder frame)))"
    by (rule step) simp_all
  then have b2: "?before 2 = ?before 1"
    unfolding nth w by simp
  have "key_frame (?before 2) (?files ! 2) = key_frame scene_fs (?files ! 2)
      \<and> ?before 3 =
          (case key_frame (?before 2) (?files ! 2) of
             None \<Rightarrow> ?before 2
           | Some frame \<Rightarrow> (?before 2)(artifact_file (?files ! 2) \<mapsto> Array (demo_encoder frame)))"
    by (rule step) simp_all
  then have b3: "?before 3 = (?before 2)(''embeddings/x_clip_000.npy'' \<mapsto> Array 113)"
    unfolding nth x by (simp add: ax enc)
  have "key_frame (?before 3) (?files ! 3) = key_frame scene_fs (?files ! 3)
      \<and> ?before 4 =
          (case key_frame (?before 3) (?files ! 3) of
             None \<Rightarrow> ?before 3
           | Some frame \<Rightarrow> (?before 3)(artifact_file (?files ! 3) \<mapsto> Array (demo_encoder frame)))"
    by (rule step) simp_all
  then have b4: "?before 4 = ?before 3"
    unfolding nth y by simp
  have total: "fst (embedding_stage demo_encoder scene_fs scene_listing) =
      scene_fs(''embeddings/v_clip_000.npy'' \<mapsto> Array 111, ''embeddings/x_clip_000.npy'' \<mapsto> Array 113)"
    unfolding fin[symmetric] b4 b3 b2 b1 ..
  have "map (key_frame scene_fs) ?files = [Some 11, None, Some 13, None]"
    by (simp add: files v w x y)
  moreover have "map (fst (embedding_stage demo_encoder scene_fs scene_listing))
        [''embeddings/v_clip_000.npy'', ''embeddings/w_clip_000.npy'',
         ''embeddings/x_clip_000.npy'', ''embeddings/y_clip_000.npy''] =
       [Some (Array 111), None, Some (Array 113), None]"
    unfolding total by (simp add: none)
  ultimately show ?thesis
    using files b1 b2 b3 b4 total by simp
qed

end
